theory Spec2Isabelle
  imports Complex_Main "HOL-Library.Multiset"
begin

section \<open>Strings and arrays of the host language\<close>

text \<open>
  A JavaScript string is modelled as a \<^typ>\<open>string\<close>: a list of code units, here the
  code units below 256 (Latin-1). Numbers are IEEE doubles in the source; they are
  idealised as \<^typ>\<open>real\<close> (no rounding, no NaN), and the integer arguments of
  \<open>slice\<close> and of the chunker as \<^typ>\<open>int\<close>.
\<close>

text \<open>\<open>String.prototype.slice(b, e)\<close> and \<open>Array.prototype.slice(b, e)\<close> for integer
  arguments: a negative index counts from the end, both are clamped to the length.\<close>

definition slice :: "'a list \<Rightarrow> int \<Rightarrow> int \<Rightarrow> 'a list" where
  "slice s b e =
     (let n = int (length s);
          k = (if b < 0 then max (n + b) 0 else min b n);
          fin = (if e < 0 then max (n + e) 0 else min e n)
      in take (nat (fin - k)) (drop (nat k) s))"

text \<open>The regular expression class \<open>\s\<close> (white space and line terminators) on the code
  units below 256: TAB, LF, VT, FF, CR, SPACE and NBSP.\<close>

definition isSpace :: "char \<Rightarrow> bool" where
  "isSpace c = (let n = (of_char c :: nat) in (9 \<le> n \<and> n \<le> 13) \<or> n = 32 \<or> n = 160)"

text \<open>\<open>c.replace(/\s+/g, " ")\<close>: every maximal run of white space becomes one space.\<close>

function collapse_ws :: "string \<Rightarrow> string" where
  "collapse_ws [] = []"
| "collapse_ws (c # cs) =
     (if isSpace c then CHR '' '' # collapse_ws (dropWhile isSpace cs)
      else c # collapse_ws cs)"
  by pat_completeness auto
termination
  by (relation "measure length") (auto simp: less_Suc_eq_le length_dropWhile_le)

definition trim :: "string \<Rightarrow> string" where
  "trim s = rev (dropWhile isSpace (rev (dropWhile isSpace s)))"

text \<open>\<open>toLowerCase\<close> on the code units below 256: A-Z and the Latin-1 capitals
  U+00C0..U+00DE other than the multiplication sign U+00D7 move up by 32.\<close>

definition lower_char :: "char \<Rightarrow> char" where
  "lower_char c =
     (let n = (of_char c :: nat)
      in if (65 \<le> n \<and> n \<le> 90) \<or> (192 \<le> n \<and> n \<le> 222 \<and> n \<noteq> 215)
         then char_of (n + 32) else c)"

definition toLowerCase :: "string \<Rightarrow> string" where
  "toLowerCase s = map lower_char s"

text \<open>\<open>s.includes(k)\<close>: \<open>k\<close> occurs in \<open>s\<close> as a contiguous substring. (The name carries a
  suffix because \<open>includes\<close> is a keyword here.)\<close>

fun includes_str :: "string \<Rightarrow> string \<Rightarrow> bool" where
  "includes_str [] k = (k = [])"
| "includes_str (c # s) k = (take (length k) (c # s) = k \<or> includes_str s k)"

text \<open>\<open>xs.join(sep)\<close>.\<close>

fun join :: "string \<Rightarrow> string list \<Rightarrow> string" where
  "join sep [] = []"
| "join sep [x] = x"
| "join sep (x # y # ys) = x @ sep @ join sep (y # ys)"

text \<open>\<open>a.reduce((s, v, i) => f(s, v, i), init)\<close>: a left fold that also passes the index.\<close>

definition reduce :: "('b \<Rightarrow> 'a \<Rightarrow> nat \<Rightarrow> 'b) \<Rightarrow> 'b \<Rightarrow> 'a list \<Rightarrow> 'b" where
  "reduce f init a = foldl (\<lambda>s (v, i). f s v i) init (zip a [0..<length a])"

text \<open>\<open>b[i]\<close>: \<open>undefined\<close> (here \<open>None\<close>) out of range.\<close>

definition at_index :: "'a list \<Rightarrow> nat \<Rightarrow> 'a option" where
  "at_index b i = (if i < length b then Some (b ! i) else None)"

text \<open>\<open>x ?? d\<close> on a value that may be \<open>undefined\<close>.\<close>

definition nullish_or :: "'a option \<Rightarrow> 'a \<Rightarrow> 'a" where
  "nullish_or x d = (case x of None \<Rightarrow> d | Some v \<Rightarrow> v)"

text \<open>
  \<open>Array.prototype.sort(cmp)\<close> is specified to be stable. For the comparators used here
  (a difference of two reals, which is a consistent ordering) the result of any stable sort
  is the same list; it is computed by a stable insertion sort driven by the comparator:
  an element goes in front of the first later element it does not have to follow.
\<close>

fun js_insort :: "('a \<Rightarrow> 'a \<Rightarrow> real) \<Rightarrow> 'a \<Rightarrow> 'a list \<Rightarrow> 'a list" where
  "js_insort cmp x [] = [x]"
| "js_insort cmp x (y # ys) =
     (if cmp x y \<le> 0 then x # y # ys else y # js_insort cmp x ys)"

definition js_sort :: "('a \<Rightarrow> 'a \<Rightarrow> real) \<Rightarrow> 'a list \<Rightarrow> 'a list" where
  "js_sort cmp xs = foldr (js_insort cmp) xs []"

subsection \<open>Numbers\<close>

text \<open>
  The numbers of the language are IEEE 754 doubles. Where a property depends on how they
  round, overflow or order, the functions below take the arithmetic as a parameter: the
  operations the source uses (\<open>+\<close>, \<open>-\<close>, \<open>*\<close>, \<open>/\<close>, \<open>Math.sqrt\<close>), the literal \<open>0\<close>, the
  test \<open>x === 0\<close>, and the test \<open>v > 0\<close> that a sort applies to the result of its
  comparator.
\<close>

record 'n arith =
  num_add :: "'n \<Rightarrow> 'n \<Rightarrow> 'n"
  num_sub :: "'n \<Rightarrow> 'n \<Rightarrow> 'n"
  num_mul :: "'n \<Rightarrow> 'n \<Rightarrow> 'n"
  num_div :: "'n \<Rightarrow> 'n \<Rightarrow> 'n"
  num_sqrt :: "'n \<Rightarrow> 'n"
  num_zero :: 'n
  num_is_zero :: "'n \<Rightarrow> bool"
  num_positive :: "'n \<Rightarrow> bool"

text \<open>The exact arithmetic of the reals (no rounding, no overflow, no NaN).\<close>

definition exact :: "real arith" where
  "exact = \<lparr>num_add = (+), num_sub = (-), num_mul = (*), num_div = (/), num_sqrt = sqrt,
     num_zero = 0, num_is_zero = (\<lambda>x. x = 0), num_positive = (\<lambda>x. 0 < x)\<rparr>"

text \<open>
  The doubles: NaN, the two infinities, and the finite values \<open>m * 2\<^sup>e\<close> with
  \<open>|m| < 2\<^sup>5\<^sup>3\<close> and \<open>-1074 \<le> e \<le> 971\<close>. The two zeros are one value here: a zero
  divisor counts as \<open>+0\<close>. (In \<open>cosine\<close> no divisor is negative and the sums never are
  \<open>-0\<close>, and \<open>-0\<close> and \<open>+0\<close> are equal for \<open>===\<close>, for the comparator and in JSON.)
\<close>

datatype double = NaN | PInf | NInf | Fin real

definition least_double :: real where
  "least_double = 1 / 2 ^ 1074"

definition finite_doubles :: "real set" where
  "finite_doubles =
     {x. \<exists>(m::int) (k::nat). \<bar>m\<bar> < 2 ^ 53 \<and> k \<le> 2045 \<and> x = of_int m * 2 ^ k * least_double}"

text \<open>A finite double has an even significand when its normalised (or subnormal) form
  \<open>m * 2\<^sup>e\<close> has an even \<open>m\<close>.\<close>

definition even_significand :: "real \<Rightarrow> bool" where
  "even_significand d =
     (\<exists>(m::int) (k::nat). \<bar>m\<bar> < 2 ^ 53 \<and> k \<le> 2045 \<and> d = of_int m * 2 ^ k * least_double \<and>
        even m \<and> (k = 0 \<or> 2 ^ 52 \<le> \<bar>m\<bar>))"

text \<open>Rounding to nearest, ties to even, among the finite doubles; a value that is a
  finite double is its own rounding.\<close>

definition nearest :: "real \<Rightarrow> real" where
  "nearest x =
     (if x \<in> finite_doubles then x
      else (let N = {d \<in> finite_doubles. \<forall>d'\<in>finite_doubles. \<bar>x - d\<bar> \<le> \<bar>x - d'\<bar>}
            in if \<exists>d\<in>N. even_significand d then (SOME d. d \<in> N \<and> even_significand d)
               else (SOME d. d \<in> N)))"

text \<open>The rounding of an exact result: from \<open>2\<^sup>1\<^sup>0\<^sup>2\<^sup>4 - 2\<^sup>9\<^sup>7\<^sup>0\<close> on it overflows to an
  infinity.\<close>

definition overflow_at :: real where
  "overflow_at = 2 ^ 1024 - 2 ^ 970"

definition to_double :: "real \<Rightarrow> double" where
  "to_double x =
     (if overflow_at \<le> \<bar>x\<bar> then (if 0 < x then PInf else NInf)
      else Fin (nearest x))"

fun d_neg :: "double \<Rightarrow> double" where
  "d_neg NaN = NaN"
| "d_neg PInf = NInf"
| "d_neg NInf = PInf"
| "d_neg (Fin x) = Fin (- x)"

fun d_add :: "double \<Rightarrow> double \<Rightarrow> double" where
  "d_add NaN b = NaN"
| "d_add a NaN = NaN"
| "d_add PInf NInf = NaN"
| "d_add NInf PInf = NaN"
| "d_add PInf b = PInf"
| "d_add a PInf = PInf"
| "d_add NInf b = NInf"
| "d_add a NInf = NInf"
| "d_add (Fin x) (Fin y) = to_double (x + y)"

definition d_sub :: "double \<Rightarrow> double \<Rightarrow> double" where
  "d_sub a b = d_add a (d_neg b)"

text \<open>An infinity times a finite value: NaN for zero, else the infinity of the product's
  sign.\<close>

definition inf_times :: "bool \<Rightarrow> real \<Rightarrow> double" where
  "inf_times positive x =
     (if x = 0 then NaN else if (0 < x) = positive then PInf else NInf)"

fun d_mul :: "double \<Rightarrow> double \<Rightarrow> double" where
  "d_mul NaN b = NaN"
| "d_mul a NaN = NaN"
| "d_mul PInf PInf = PInf"
| "d_mul PInf NInf = NInf"
| "d_mul NInf PInf = NInf"
| "d_mul NInf NInf = PInf"
| "d_mul PInf (Fin y) = inf_times True y"
| "d_mul NInf (Fin y) = inf_times False y"
| "d_mul (Fin x) PInf = inf_times True x"
| "d_mul (Fin x) NInf = inf_times False x"
| "d_mul (Fin x) (Fin y) = to_double (x * y)"

fun d_div :: "double \<Rightarrow> double \<Rightarrow> double" where
  "d_div NaN b = NaN"
| "d_div a NaN = NaN"
| "d_div PInf (Fin y) = (if 0 \<le> y then PInf else NInf)"
| "d_div NInf (Fin y) = (if 0 \<le> y then NInf else PInf)"
| "d_div PInf b = NaN"
| "d_div NInf b = NaN"
| "d_div (Fin x) PInf = Fin 0"
| "d_div (Fin x) NInf = Fin 0"
| "d_div (Fin x) (Fin y) =
     (if y = 0 then (if x = 0 then NaN else if 0 < x then PInf else NInf)
      else to_double (x / y))"

fun d_sqrt :: "double \<Rightarrow> double" where
  "d_sqrt NaN = NaN"
| "d_sqrt PInf = PInf"
| "d_sqrt NInf = NaN"
| "d_sqrt (Fin x) = (if x < 0 then NaN else to_double (sqrt x))"

fun d_positive :: "double \<Rightarrow> bool" where
  "d_positive (Fin x) = (0 < x)"
| "d_positive PInf = True"
| "d_positive d = False"

text \<open>The comparison \<open>a <= b\<close> of the language: false when an operand is NaN.\<close>

fun d_le :: "double \<Rightarrow> double \<Rightarrow> bool" where
  "d_le NaN b = False"
| "d_le a NaN = False"
| "d_le NInf b = True"
| "d_le a PInf = True"
| "d_le PInf b = False"
| "d_le a NInf = False"
| "d_le (Fin x) (Fin y) = (x \<le> y)"

definition ieee :: "double arith" where
  "ieee = \<lparr>num_add = d_add, num_sub = d_sub, num_mul = d_mul, num_div = d_div,
     num_sqrt = d_sqrt, num_zero = Fin 0, num_is_zero = (\<lambda>d. d = Fin 0),
     num_positive = d_positive\<rparr>"

text \<open>The stable insertion sort again, with the comparator's result read by the test
  \<open>v > 0\<close> of the arithmetic (a result that is NaN counts as \<open>+0\<close> in the language, and is
  not positive). When the comparator is not a consistent ordering the language leaves the
  order to the engine.\<close>

fun js_insort_with :: "('v \<Rightarrow> bool) \<Rightarrow> ('a \<Rightarrow> 'a \<Rightarrow> 'v) \<Rightarrow> 'a \<Rightarrow> 'a list \<Rightarrow> 'a list" where
  "js_insort_with pos cmp x [] = [x]"
| "js_insort_with pos cmp x (y # ys) =
     (if \<not> pos (cmp x y) then x # y # ys else y # js_insort_with pos cmp x ys)"

definition js_sort_with :: "('v \<Rightarrow> bool) \<Rightarrow> ('a \<Rightarrow> 'a \<Rightarrow> 'v) \<Rightarrow> 'a list \<Rightarrow> 'a list" where
  "js_sort_with pos cmp xs = foldr (js_insort_with pos cmp) xs []"

subsection \<open>Exceptions\<close>

text \<open>What is thrown: the engine's \<open>TypeError\<close> and \<open>RangeError\<close>, the parser's
  \<open>SyntaxError\<close> with its message, and the failure of a provider call with its message.\<close>

datatype error =
    TypeError
  | RangeError
  | SyntaxError string
  | ProviderError string

section \<open>Helpers of index.js\<close>

subsection \<open>cosine\<close>

text \<open>The function over the reals, where no operation rounds. \<open>cosine_with\<close> below is the
  function over an arithmetic given as a parameter; the two agree on the reals
  (\<open>cosine_exact\<close>).\<close>

definition cosine :: "real list \<Rightarrow> real list \<Rightarrow> real" where
  "cosine a b =
     (let dot = reduce (\<lambda>s v i. s + v * nullish_or (at_index b i) 0) 0 a;
          magA = sqrt (reduce (\<lambda>s v i. s + v * v) 0 a);
          magB = sqrt (reduce (\<lambda>s v i. s + v * v) 0 b)
      in if magA = 0 \<or> magB = 0 then 0 else dot / (magA * magB))"

text \<open>\<open>cosine\<close> once more, over the arithmetic given as a parameter: the same three folds,
  the same guard, the same division.\<close>

definition cosine_with :: "'n arith \<Rightarrow> 'n list \<Rightarrow> 'n list \<Rightarrow> 'n" where
  "cosine_with ar a b =
     (let dot = reduce (\<lambda>s v i. num_add ar s
                   (num_mul ar v (nullish_or (at_index b i) (num_zero ar)))) (num_zero ar) a;
          magA = num_sqrt ar (reduce (\<lambda>s v i. num_add ar s (num_mul ar v v)) (num_zero ar) a);
          magB = num_sqrt ar (reduce (\<lambda>s v i. num_add ar s (num_mul ar v v)) (num_zero ar) b)
      in if num_is_zero ar magA \<or> num_is_zero ar magB then num_zero ar
         else num_div ar dot (num_mul ar magA magB))"

subsection \<open>chunkText\<close>

text \<open>The \<open>while\<close> loop of \<open>chunkText\<close>, first with an array of unbounded capacity. It is
  a partial function (\<open>None\<close> is a loop that does not return), and it is the model of
  the calls with \<open>overlap < chunkSize\<close>, where the step is positive and the loop returns
  (\<open>chunkText_Some\<close> below).\<close>

partial_function (option) chunkLoop ::
  "'a list \<Rightarrow> int \<Rightarrow> int \<Rightarrow> int \<Rightarrow> 'a list list \<Rightarrow> 'a list list option" where
  "chunkLoop s chunkSize overlap i chunks =
     (if i < int (length s)
      then chunkLoop s chunkSize overlap (i + (chunkSize - overlap))
             (chunks @ [slice s i (i + chunkSize)])
      else Some chunks)"

declare chunkLoop.simps [code]

definition chunkText :: "'a list \<Rightarrow> int \<Rightarrow> int \<Rightarrow> 'a list list option" where
  "chunkText s chunkSize overlap = chunkLoop s chunkSize overlap 0 []"




section \<open>The /hackrx/run handler\<close>

subsection \<open>Data\<close>

text \<open>What \<open>fetchAndExtract\<close> returns: the text (possibly \<open>undefined\<close>) and the source
  label. The members \<open>text\<close> and \<open>source\<close> of a document and of a chunk are prefixed
  (\<open>doc_text\<close>, \<open>c_text\<close>, ...), and the handler's \<open>top\<close> is written \<open>topK\<close>: the plain
  names are taken.\<close>

record doc =
  doc_text :: "string option"
  doc_source :: string

record chunk =
  c_text :: string
  c_source :: string
  doc_index :: nat
  chunk_index :: nat

record 'n scored = chunk +
  embedding :: "'n list"
  score :: 'n

datatype json =
    JNull
  | JBool bool
  | JNum real
  | JStr string
  | JArr "json list"
  | JObj "(string \<times> json) list"

text \<open>The \<open>documents\<close> member of the body: missing (or falsy), one reference, or an
  array of references. The \<open>query\<close> member is \<open>None\<close> when it is missing.\<close>

datatype 'i documents = NoDocuments | OneDocument 'i | DocumentArray "'i list"

record 'i request =
  documents :: "'i documents"
  query :: "string option"

record ok_body =
  chunks_indexed :: nat
  top_k :: nat
  results :: json

datatype response =
    Status400 string
  | Status500 error
  | Status200 ok_body

text \<open>What a request did: the response, and the inputs of the calls made to the
  embedding provider, in order.\<close>

record outcome =
  response :: response
  embed_calls :: "string list list"

subsection \<open>Step 2: chunks and their metadata\<close>

definition normalize :: "string \<Rightarrow> string" where
  "normalize c = trim (collapse_ws c)"

definition or_empty :: "string option \<Rightarrow> string" where
  "or_empty t = (case t of None \<Rightarrow> [] | Some s \<Rightarrow> s)"

definition doc_chunks :: "doc \<Rightarrow> nat \<Rightarrow> chunk list option" where
  "doc_chunks d di =
     (case chunkText (or_empty (doc_text d) @ [CHR 0x0A]) 900 150 of
        None \<Rightarrow> None
      | Some docChunks \<Rightarrow>
          Some (map (\<lambda>(c, idx). \<lparr>c_text = normalize c, c_source = doc_source d,
                                  doc_index = di, chunk_index = idx\<rparr>)
                  (zip docChunks [0..<length docChunks])))"

fun build_from :: "doc list \<Rightarrow> nat \<Rightarrow> chunk list \<Rightarrow> chunk list option" where
  "build_from [] di chunks = Some chunks"
| "build_from (d # ds) di chunks =
     (case doc_chunks d di of
        None \<Rightarrow> None
      | Some cs \<Rightarrow> build_from ds (Suc di) (chunks @ cs))"

definition build_chunks :: "doc list \<Rightarrow> chunk list option" where
  "build_chunks docs = build_from docs 0 []"

subsection \<open>Step 3: embedTexts\<close>

text \<open>The embedding provider is a parameter: given the batch it returns the vectors, or
  fails (\<open>Inl\<close>, the exception thrown). \<open>embedTexts\<close> sends batches of 10 in order and
  stops at the first failure; the second component is the list of batches sent.\<close>

function embedLoop ::
  "(string list \<Rightarrow> error + real list list) \<Rightarrow> string list \<Rightarrow> nat \<Rightarrow> real list list \<Rightarrow>
   string list list \<Rightarrow> (error + real list list) \<times> string list list" where
  "embedLoop create texts i res calls =
     (if i < length texts
      then (let batch = slice texts (int i) (int i + 10)
            in case create batch of
                 Inl e \<Rightarrow> (Inl e, calls @ [batch])
               | Inr data \<Rightarrow> embedLoop create texts (i + 10) (res @ data) (calls @ [batch]))
      else (Inr res, calls))"
  by pat_completeness auto
termination
  by (relation "measure (\<lambda>(create, texts, i, res, calls). length texts - i)") auto

definition embedTexts ::
  "(string list \<Rightarrow> error + real list list) \<Rightarrow> string list \<Rightarrow>
   (error + real list list) \<times> string list list" where
  "embedTexts create texts = embedLoop create texts 0 [] []"

subsection \<open>Step 5: semantic search\<close>

text \<open>\<open>chunks[i].embedding = embeddings[i]\<close> leaves the embedding \<open>undefined\<close> when the
  provider returned fewer vectors than chunks; \<open>cosine\<close> then throws on reading it.\<close>

definition rank :: "real list \<Rightarrow> chunk list \<Rightarrow> real list list \<Rightarrow> error + real scored list" where
  "rank qEmb chunks embeddings =
     (if length embeddings < length chunks then Inl TypeError
      else
        (let K = min 6 (length chunks);
             scored = map (\<lambda>(c, e). chunk.extend c \<lparr>embedding = e, score = cosine qEmb e\<rparr>)
                        (zip chunks embeddings);
             scored = js_sort (\<lambda>a b. score b - score a) scored
         in Inr (slice scored 0 (int K))))"

text \<open>The same step over the arithmetic given as a parameter.\<close>

definition rank_with ::
  "'n arith \<Rightarrow> 'n list \<Rightarrow> chunk list \<Rightarrow> 'n list list \<Rightarrow> error + 'n scored list" where
  "rank_with ar qEmb chunks embeddings =
     (if length embeddings < length chunks then Inl TypeError
      else
        (let K = min 6 (length chunks);
             scored = map (\<lambda>(c, e). chunk.extend c
                              \<lparr>embedding = e, score = cosine_with ar qEmb e\<rparr>)
                        (zip chunks embeddings);
             scored = js_sort_with (num_positive ar)
                        (\<lambda>a b. num_sub ar (score b) (score a)) scored
         in Inr (slice scored 0 (int K))))"

subsection \<open>Steps 7 and 8: parsing the completion, the fallback, the repair\<close>

text \<open>\<open>llmText.match(/(\{[\s\S]*\})/)\<close>: from the first opening brace to the last closing
  brace after it; no match when there is no such pair.\<close>

definition jsonMatch :: "string \<Rightarrow> string option" where
  "jsonMatch llmText =
     (let rest = dropWhile (\<lambda>c. c \<noteq> CHR ''{'') llmText
      in if rest = [] then None
         else if CHR ''}'' \<in> set (tl rest)
              then Some (rev (dropWhile (\<lambda>c. c \<noteq> CHR ''}'') (rev rest)))
              else None)"

text \<open>\<open>JSON.parse\<close> belongs to the host language, not to the repository: it is a
  parameter, returning the value or the \<open>SyntaxError\<close> it throws. The \<open>try\<close> block
  leaves \<open>parsed\<close> at \<open>null\<close> when nothing matches or the parser throws.\<close>

definition parse_llm :: "(string \<Rightarrow> error + json) \<Rightarrow> string \<Rightarrow> json" where
  "parse_llm JSON_parse llmText =
     (case jsonMatch llmText of
        None \<Rightarrow> JNull
      | Some m \<Rightarrow> (case JSON_parse m of Inl e \<Rightarrow> JNull | Inr v \<Rightarrow> v))"

text \<open>Truthiness of a JSON value (\<open>!v\<close>, \<open>v || d\<close>).\<close>

fun truthy :: "json \<Rightarrow> bool" where
  "truthy JNull = False"
| "truthy (JBool b) = b"
| "truthy (JNum x) = (x \<noteq> 0)"
| "truthy (JStr s) = (s \<noteq> [])"
| "truthy (JArr xs) = True"
| "truthy (JObj kvs) = True"

text \<open>\<open>j.key\<close> on a JSON value other than \<open>null\<close>: the member of an object,
  \<open>undefined\<close> (\<open>None\<close>) when it is absent or \<open>j\<close> is not an object.\<close>

fun field :: "string \<Rightarrow> json \<Rightarrow> json option" where
  "field key (JObj kvs) = map_of kvs key"
| "field key j = None"

text \<open>\<open>a || b\<close> and \<open>a ?? b\<close> where \<open>a\<close> may be \<open>undefined\<close> and \<open>b\<close> is a value.\<close>

definition or_else :: "json option \<Rightarrow> json \<Rightarrow> json" where
  "or_else a b = (case a of None \<Rightarrow> b | Some v \<Rightarrow> (if truthy v then v else b))"

definition nullish_else :: "json option \<Rightarrow> json \<Rightarrow> json" where
  "nullish_else a b = (case a of None \<Rightarrow> b | Some JNull \<Rightarrow> b | Some v \<Rightarrow> v)"

text \<open>\<open>obj.key = v\<close> on a parsed object: the member is replaced in place, or added last.\<close>

fun set_field :: "string \<Rightarrow> json \<Rightarrow> (string \<times> json) list \<Rightarrow> (string \<times> json) list" where
  "set_field key v [] = [(key, v)]"
| "set_field key v ((k, w) # kvs) =
     (if k = key then (key, v) # kvs else (k, w) # set_field key v kvs)"

definition rejectKeywords :: "string list" where
  "rejectKeywords = [''not covered'', ''exclusion'', ''deductible not'', ''pre-existing'',
     ''waiting period'', ''not eligible'', ''excludes'']"

definition approveKeywords :: "string list" where
  "approveKeywords = [''covered'', ''shall be paid'', ''payable'', ''benefit'', ''eligible'',
     ''entitled'']"

text \<open>\<open>top.map(t => ({clause: t.text.slice(0,300), source, chunk_index, similarity}))\<close>.\<close>

definition from_top :: "real scored \<Rightarrow> json" where
  "from_top t = JObj [(''clause'', JStr (slice (c_text t) 0 300)),
                      (''source'', JStr (c_source t)),
                      (''chunk_index'', JNum (real (chunk_index t))),
                      (''similarity'', JNum (score t))]"

text \<open>The callback of \<open>parsed.justification.map\<close>. \<open>top[i] || {}\<close> is an empty object
  when there is no \<open>i\<close>-th top chunk, so each of its members is \<open>undefined\<close> and the
  chain ends in \<open>""\<close> or \<open>null\<close>. Reading a member of a \<open>null\<close> entry throws.\<close>

definition repair_entry :: "real scored list \<Rightarrow> json \<Rightarrow> nat \<Rightarrow> error + json" where
  "repair_entry topK j i =
     (if j = JNull then Inl TypeError
      else
        (let topMatch = at_index topK i
         in Inr (JObj
           [(''clause'',
               or_else (field ''clause'' j)
                 (or_else (map_option (\<lambda>t. JStr (slice (c_text t) 0 300)) topMatch)
                    (JStr []))),
            (''source'',
               or_else (field ''source'' j)
                 (or_else (map_option (\<lambda>t. JStr (c_source t)) topMatch) (JStr []))),
            (''chunk_index'',
               nullish_else (field ''chunk_index'' j)
                 (nullish_else (map_option (\<lambda>t. JNum (real (chunk_index t))) topMatch)
                    JNull)),
            (''similarity'',
               nullish_else (field ''similarity'' j)
                 (nullish_else (map_option (\<lambda>t. JNum (score t)) topMatch) JNull))])))"

fun repair_all :: "real scored list \<Rightarrow> json list \<Rightarrow> nat \<Rightarrow> error + json list" where
  "repair_all topK [] i = Inr []"
| "repair_all topK (j # js) i =
     (case repair_entry topK j i of
        Inl e \<Rightarrow> Inl e
      | Inr r \<Rightarrow> (case repair_all topK js (Suc i) of
                    Inl e \<Rightarrow> Inl e
                  | Inr rs \<Rightarrow> Inr (r # rs)))"

text \<open>The \<open>if (!parsed) ... else ...\<close> of the handler: from the top chunks, the completion's
  text and what the \<open>try\<close> block left in \<open>parsed\<close>, the \<open>results\<close> member of the response.
  On a parsed value that is no object the assignment to \<open>parsed.justification\<close> has no
  effect on what is serialised.\<close>

definition synthesize :: "real scored list \<Rightarrow> string \<Rightarrow> json \<Rightarrow> error + json" where
  "synthesize topK llmText parsed =
     (if \<not> truthy parsed then
        (let joined = join '' '' (map (\<lambda>t. toLowerCase (c_text t)) topK);
             foundReject = list_ex (\<lambda>k. includes_str joined k) rejectKeywords;
             foundApprove = list_ex (\<lambda>k. includes_str joined k) approveKeywords;
             decision = (if foundReject \<and> \<not> foundApprove then ''rejected''
                         else if foundApprove \<and> \<not> foundReject then ''approved''
                         else ''maybe'')
         in Inr (JObj
              [(''decision'', JStr decision),
               (''amount'', JNull),
               (''justification'', JArr (map from_top topK)),
               (''explain_prompt'',
                  JStr (if llmText \<noteq> [] then llmText
                        else ''LLM did not return parsable JSON; fallback heuristic used.''))]))
      else
        (case parsed of
           JObj kvs \<Rightarrow>
             (case map_of kvs ''justification'' of
                Some (JArr js) \<Rightarrow>
                  (case repair_all topK js 0 of
                     Inl e \<Rightarrow> Inl e
                   | Inr rs \<Rightarrow> Inr (JObj (set_field ''justification'' (JArr rs) kvs)))
              | _ \<Rightarrow> Inr (JObj (set_field ''justification'' (JArr (map from_top topK)) kvs)))
         | other \<Rightarrow> Inr other))"

subsection \<open>The handler\<close>

text \<open>
  The collaborators are parameters: \<open>extract\<close> is \<open>fetchAndExtract\<close> (it catches its own
  errors), \<open>create\<close> the embedding provider, \<open>chat\<close> the chat completion seen as a function
  of the query and the top chunks the prompt is built from (the completion's text, \<open>""\<close>
  when it has none, or the exception), \<open>JSON_parse\<close> the parser. The query is embedded by
  a call of its own, recorded as a batch of one. The result is \<open>None\<close>
  when the handler never responds. The echo of the input, the model name and the time
  stamp of the response are left out.
\<close>

definition run ::
  "('i \<Rightarrow> doc) \<Rightarrow> (string list \<Rightarrow> error + real list list) \<Rightarrow>
   (string \<Rightarrow> real scored list \<Rightarrow> error + string) \<Rightarrow> (string \<Rightarrow> error + json) \<Rightarrow>
   'i request \<Rightarrow> outcome option" where
  "run extract create chat JSON_parse req =
     (case documents req of
        NoDocuments \<Rightarrow>
          Some \<lparr>response = Status400 ''Missing 'documents' (URL or array) in request body.'',
                embed_calls = []\<rparr>
      | _ \<Rightarrow>
     (if or_empty (query req) = [] then
        Some \<lparr>response = Status400 ''Missing 'query' in request body.'', embed_calls = []\<rparr>
      else
     (let q = or_empty (query req);
          items = (case documents req of DocumentArray xs \<Rightarrow> xs | OneDocument x \<Rightarrow> [x]
                   | NoDocuments \<Rightarrow> []);
          docs = map extract items
      in case build_chunks docs of
           None \<Rightarrow> None
         | Some chunks \<Rightarrow>
     (if length chunks = 0 then
        Some \<lparr>response = Status400 ''No extractable text found in documents.'',
              embed_calls = []\<rparr>
      else
        (case embedTexts create (map c_text chunks) of
           (Inl e, calls) \<Rightarrow> Some \<lparr>response = Status500 e, embed_calls = calls\<rparr>
         | (Inr embeddings, calls) \<Rightarrow>
        (case create [q] of
           Inl e \<Rightarrow> Some \<lparr>response = Status500 e, embed_calls = calls @ [[q]]\<rparr>
         | Inr [] \<Rightarrow> Some \<lparr>response = Status500 TypeError, embed_calls = calls @ [[q]]\<rparr>
         | Inr (qEmb # _) \<Rightarrow>
        (case rank qEmb chunks embeddings of
           Inl e \<Rightarrow> Some \<lparr>response = Status500 e, embed_calls = calls @ [[q]]\<rparr>
         | Inr topK \<Rightarrow>
        (case chat q topK of
           Inl e \<Rightarrow> Some \<lparr>response = Status500 e, embed_calls = calls @ [[q]]\<rparr>
         | Inr llmText \<Rightarrow>
        (case synthesize topK llmText (parse_llm JSON_parse llmText) of
           Inl e \<Rightarrow> Some \<lparr>response = Status500 e, embed_calls = calls @ [[q]]\<rparr>
         | Inr res \<Rightarrow>
             Some \<lparr>response = Status200
                      \<lparr>chunks_indexed = length chunks, top_k = length topK, results = res\<rparr>,
                   embed_calls = calls @ [[q]]\<rparr>)))))))))"

section \<open>The simplified handlers\<close>

text \<open>\<open>pages/api/webhook.js\<close> and the \<open>POST\<close> route: one chat completion for the query,
  its content handed to \<open>JSON.parse\<close>, every exception answered with an error object
  (status 500 in the first, the default status 200 in the second).\<close>

record http_response =
  status :: nat
  body :: json

text \<open>\<open>error.message\<close>; the wording of the engine's own \<open>TypeError\<close> is not modelled.\<close>

fun message :: "error \<Rightarrow> string" where
  "message TypeError = ''TypeError''"
| "message RangeError = ''Invalid array length''"
| "message (SyntaxError m) = m"
| "message (ProviderError m) = m"

definition error_body :: "string \<Rightarrow> json" where
  "error_body m = JObj [(''error'', JStr m)]"

definition handler ::
  "(string option \<Rightarrow> error + string) \<Rightarrow> (string \<Rightarrow> error + json) \<Rightarrow>
   string \<Rightarrow> string option \<Rightarrow> http_response" where
  "handler chat JSON_parse method q =
     (if method \<noteq> ''POST'' then
        \<lparr>status = 405, body = error_body ''Method not allowed''\<rparr>
      else
        (case chat q of
           Inl e \<Rightarrow> \<lparr>status = 500, body = error_body (message e)\<rparr>
         | Inr content \<Rightarrow>
             (case JSON_parse content of
                Inl e \<Rightarrow> \<lparr>status = 500, body = error_body (message e)\<rparr>
              | Inr v \<Rightarrow> \<lparr>status = 200, body = v\<rparr>)))"

definition POST ::
  "(string option \<Rightarrow> error + string) \<Rightarrow> (string \<Rightarrow> error + json) \<Rightarrow>
   string option \<Rightarrow> http_response" where
  "POST chat JSON_parse q =
     (case chat q of
        Inl e \<Rightarrow> \<lparr>status = 200, body = error_body (message e)\<rparr>
      | Inr content \<Rightarrow>
          (case JSON_parse content of
             Inl e \<Rightarrow> \<lparr>status = 200, body = error_body (message e)\<rparr>
           | Inr v \<Rightarrow> \<lparr>status = 200, body = v\<rparr>))"

section \<open>Notions used to state the properties\<close>

text \<open>What the loop of \<open>chunkText\<close> produces from offset \<open>i\<close> on when the step \<open>st\<close> is
  positive, as a total function; \<open>chunkLoop_chunksFrom\<close> below relates it to the loop.\<close>

function chunksFrom :: "'a list \<Rightarrow> int \<Rightarrow> int \<Rightarrow> int \<Rightarrow> 'a list list" where
  "chunksFrom s w st i =
     (if 0 < st \<and> i < int (length s)
      then slice s i (i + w) # chunksFrom s w st (i + st) else [])"
  by pat_completeness auto
termination
  by (relation "measure (\<lambda>(s, w, st, i). nat (int (length s) - i))") auto

declare chunksFrom.simps [simp del]

text \<open>The last \<open>n\<close> elements of a list (all of it when it is shorter).\<close>

definition lastn :: "nat \<Rightarrow> 'a list \<Rightarrow> 'a list" where
  "lastn n xs = drop (length xs - n) xs"

text \<open>The dot product and the magnitude of the specification. On lists of different
  lengths the dot product runs over the common prefix.\<close>

definition dot_product :: "real list \<Rightarrow> real list \<Rightarrow> real" where
  "dot_product a b = (\<Sum>(x, y)\<leftarrow>zip a b. x * y)"

definition magnitude :: "real list \<Rightarrow> real" where
  "magnitude a = sqrt (\<Sum>x\<leftarrow>a. x * x)"

text \<open>The same two notions over an arithmetic given as a parameter: the sums start at its
  zero and add the products from left to right, the order in which \<open>reduce\<close> adds them (it
  matters once the operations round).\<close>

definition dot_product_with :: "'n arith \<Rightarrow> 'n list \<Rightarrow> 'n list \<Rightarrow> 'n" where
  "dot_product_with ar a b =
     foldl (\<lambda>s (x, y). num_add ar s (num_mul ar x y)) (num_zero ar) (zip a b)"

definition magnitude_with :: "'n arith \<Rightarrow> 'n list \<Rightarrow> 'n" where
  "magnitude_with ar a =
     num_sqrt ar (foldl (\<lambda>s x. num_add ar s (num_mul ar x x)) (num_zero ar) a)"

text \<open>A double is well formed when, if it is finite, its value is one of the finite
  doubles.\<close>

definition wf_double :: "double \<Rightarrow> bool" where
  "wf_double d = (case d of Fin x \<Rightarrow> x \<in> finite_doubles | _ \<Rightarrow> True)"

text \<open>The original order of the chunks: document index, then chunk index.\<close>

definition before :: "'a chunk_scheme \<Rightarrow> 'b chunk_scheme \<Rightarrow> bool" where
  "before a b =
     (doc_index a < doc_index b \<or> (doc_index a = doc_index b \<and> chunk_index a < chunk_index b))"

text \<open>All the chunks with their embeddings and similarities, in the original order: the
  array that the handler sorts.\<close>

definition scored_all :: "'n arith \<Rightarrow> 'n list \<Rightarrow> chunk list \<Rightarrow> 'n list list \<Rightarrow> 'n scored list" where
  "scored_all ar qEmb chunks embeddings =
     map (\<lambda>(c, e). chunk.extend c \<lparr>embedding = e, score = cosine_with ar qEmb e\<rparr>)
       (zip chunks embeddings)"

text \<open>The chunk of a one-chunk document and its scored form, to write examples with.\<close>

definition example_chunk :: "string \<Rightarrow> nat \<Rightarrow> chunk" where
  "example_chunk s i = \<lparr>c_text = s, c_source = ''policy.pdf'', doc_index = i, chunk_index = 0\<rparr>"

definition example_scored :: "string \<Rightarrow> nat \<Rightarrow> 'n list \<Rightarrow> 'n \<Rightarrow> 'n scored" where
  "example_scored s i e v = chunk.extend (example_chunk s i) \<lparr>embedding = e, score = v\<rparr>"

text \<open>The keyword heuristic in the words of the specification, with keyword sets of its
  own: a keyword occurs in a text when the text is some prefix, the keyword, some suffix.\<close>

definition occurs :: "string \<Rightarrow> string \<Rightarrow> bool" where
  "occurs k s = (\<exists>p q. s = p @ k @ q)"

text \<open>The two keyword sets, as the specification lists them.\<close>

definition rejection_signals :: "string set" where
  "rejection_signals = {''not covered'', ''exclusion'', ''deductible not'', ''pre-existing'',
     ''waiting period'', ''not eligible'', ''excludes''}"

definition approval_signals :: "string set" where
  "approval_signals = {''covered'', ''shall be paid'', ''payable'', ''benefit'', ''eligible'',
     ''entitled''}"

definition keyword_heuristic :: "string \<Rightarrow> string" where
  "keyword_heuristic s =
     (if (\<exists>k\<in>rejection_signals. occurs k s) \<and> \<not> (\<exists>k\<in>approval_signals. occurs k s)
      then ''rejected''
      else if (\<exists>k\<in>approval_signals. occurs k s) \<and> \<not> (\<exists>k\<in>rejection_signals. occurs k s)
      then ''approved''
      else ''maybe'')"

text \<open>No parsable JSON object is found in the completion: the pattern matches nothing, or
  the parser rejects what it matches.\<close>

definition no_parsable_json :: "(string \<Rightarrow> error + json) \<Rightarrow> string \<Rightarrow> bool" where
  "no_parsable_json JSON_parse llmText =
     (case jsonMatch llmText of
        None \<Rightarrow> True
      | Some m \<Rightarrow> (case JSON_parse m of Inl e \<Rightarrow> True | Inr v \<Rightarrow> False))"

text \<open>A justification entry of the generative output supplies a member when the handler
  keeps it: for \<open>source\<close> (tested with \<open>||\<close>) a truthy value, for \<open>chunk_index\<close> and
  \<open>similarity\<close> (tested with \<open>??\<close>) any value but \<open>null\<close>.\<close>

definition supplied_truthy :: "string \<Rightarrow> json \<Rightarrow> bool" where
  "supplied_truthy key j = (case field key j of None \<Rightarrow> False | Some v \<Rightarrow> truthy v)"

definition supplied :: "string \<Rightarrow> json \<Rightarrow> bool" where
  "supplied key j = (case field key j of None \<Rightarrow> False | Some v \<Rightarrow> v \<noteq> JNull)"

section \<open>The chunker\<close>

lemma chunkLoop_chunksFrom:
  "0 < w - ov \<Longrightarrow> chunkLoop s w ov i acc = Some (acc @ chunksFrom s w (w - ov) i)"
proof (induction "nat (int (length s) - i)" arbitrary: i acc rule: less_induct)
  case less
  show ?case
  proof (cases "i < int (length s)")
    case True
    have "nat (int (length s) - (i + (w - ov))) < nat (int (length s) - i)"
      using True less.prems by linarith
    from less.hyps [OF this less.prems]
    have ih: "chunkLoop s w ov (i + (w - ov)) (acc @ [slice s i (i + w)]) =
      Some ((acc @ [slice s i (i + w)]) @ chunksFrom s w (w - ov) (i + (w - ov)))" .
    have "chunkLoop s w ov i acc =
      chunkLoop s w ov (i + (w - ov)) (acc @ [slice s i (i + w)])"
      using True by (subst chunkLoop.simps) simp
    moreover have "chunksFrom s w (w - ov) i =
      slice s i (i + w) # chunksFrom s w (w - ov) (i + (w - ov))"
      using True less.prems by (subst chunksFrom.simps) simp
    ultimately show ?thesis using ih by simp
  next
    case False
    have "chunkLoop s w ov i acc = Some acc"
      using False by (subst chunkLoop.simps) simp
    moreover have "chunksFrom s w (w - ov) i = []"
      using False by (subst chunksFrom.simps) simp
    ultimately show ?thesis by simp
  qed
qed

lemma chunkText_Some: "ov < w \<Longrightarrow> chunkText s w ov = Some (chunksFrom s w (w - ov) 0)"
  using chunkLoop_chunksFrom [of w ov s 0 "[]"] by (simp add: chunkText_def)





lemma length_chunksFrom:
  "0 < st \<Longrightarrow> (k < length (chunksFrom s w st i)) = (i + int k * st < int (length s))"
proof (induction k arbitrary: i)
  case 0
  then show ?case by (subst chunksFrom.simps) simp
next
  case (Suc k)
  show ?case
  proof (cases "i < int (length s)")
    case True
    then show ?thesis
      using Suc.prems Suc.IH [OF Suc.prems, of "i + st"]
      by (subst chunksFrom.simps) (simp add: algebra_simps)
  next
    case False
    moreover have "0 \<le> int (Suc k) * st" using Suc.prems by simp
    ultimately have "\<not> i + int (Suc k) * st < int (length s)" by linarith
    then show ?thesis using False by (subst chunksFrom.simps) simp
  qed
qed

lemma nth_chunksFrom:
  "0 < st \<Longrightarrow> k < length (chunksFrom s w st i) \<Longrightarrow>
   chunksFrom s w st i ! k = slice s (i + int k * st) (i + int k * st + w)"
proof (induction k arbitrary: i)
  case 0
  then show ?case by (subst (asm) chunksFrom.simps, subst chunksFrom.simps) (simp split: if_splits)
next
  case (Suc k)
  from Suc.prems(2) have lt: "i < int (length s)"
    by (subst (asm) chunksFrom.simps) (simp split: if_splits)
  then have unf: "chunksFrom s w st i = slice s i (i + w) # chunksFrom s w st (i + st)"
    using Suc.prems(1) by (subst chunksFrom.simps) simp
  with Suc.prems(2) have "k < length (chunksFrom s w st (i + st))" by simp
  from Suc.IH [OF Suc.prems(1) this] unf show ?case by (simp add: algebra_simps)
qed

lemma slice_nonneg:
  "0 \<le> b \<Longrightarrow> 0 \<le> e \<Longrightarrow> slice s b e = take (nat e - nat b) (drop (nat b) s)"
  by (simp add: slice_def Let_def min_def nat_diff_distrib')

lemma chunk_nth:
  assumes "0 \<le> ov" "ov < w" "chunkText s w ov = Some cs" "k < length cs"
  shows "cs ! k = take (nat w) (drop (k * nat (w - ov)) s)"
    and "k * nat (w - ov) < length s"
proof -
  have cs: "cs = chunksFrom s w (w - ov) 0"
    using chunkText_Some [OF assms(2), of s] assms(3) by simp
  have st: "0 < w - ov" using assms(2) by simp
  have "0 + int k * (w - ov) < int (length s)"
    using length_chunksFrom [OF st, of k s w 0] assms(4) cs by simp
  then have "int (k * nat (w - ov)) < int (length s)" using st by simp
  then show lt: "k * nat (w - ov) < length s" by linarith
  have "cs ! k = slice s (int k * (w - ov)) (int k * (w - ov) + w)"
    using nth_chunksFrom [OF st, of k s w 0] assms(4) cs by simp
  also have "\<dots> = take (nat (int k * (w - ov) + w) - nat (int k * (w - ov)))
      (drop (nat (int k * (w - ov))) s)"
    using st assms(1,2) by (intro slice_nonneg) auto
  also have "nat (int k * (w - ov)) = k * nat (w - ov)"
    using st by (simp add: nat_mult_distrib)
  also have "nat (int k * (w - ov) + w) - k * nat (w - ov) = nat w"
    using st assms(1,2) by (simp add: nat_add_distrib nat_mult_distrib)
  finally show "cs ! k = take (nat w) (drop (k * nat (w - ov)) s)" .
qed

lemma chunk_overlap_full:
  assumes "0 \<le> ov" "ov < w" "chunkText s w ov = Some cs" "Suc k < length cs"
    and full: "length (cs ! k) = nat w"
  shows "lastn (nat ov) (cs ! k) = take (nat ov) (cs ! Suc k)"
proof -
  define st where "st = nat (w - ov)"
  have w: "nat w = st + nat ov" using assms(1,2) by (simp add: st_def)
  have k: "cs ! k = take (nat w) (drop (k * st) s)"
    using chunk_nth(1) [OF assms(1-3)] assms(4) by (simp add: st_def)
  have k1: "cs ! Suc k = take (nat w) (drop (Suc k * st) s)"
    using chunk_nth(1) [OF assms(1-3) assms(4)] by (simp add: st_def)
  have "lastn (nat ov) (cs ! k) = drop st (take (st + nat ov) (drop (k * st) s))"
    using full w by (simp add: lastn_def k)
  also have "\<dots> = take (nat ov) (drop (st + k * st) s)"
    by (simp add: drop_take)
  also have "\<dots> = take (nat ov) (cs ! Suc k)"
    by (simp add: k1 w min_def)
  finally show ?thesis .
qed

lemma chunk_full_window:
  assumes "0 \<le> ov" "ov < w" "chunkText s w ov = Some cs" "Suc (Suc k) < length cs"
    and half: "2 * ov \<le> w"
  shows "length (cs ! k) = nat w"
proof -
  define st where "st = nat (w - ov)"
  have w: "nat w = st + nat ov" using assms(1,2) by (simp add: st_def)
  have le: "nat ov \<le> st" using half assms(1) by (simp add: st_def)
  have k: "cs ! k = take (nat w) (drop (k * st) s)"
    using chunk_nth(1) [OF assms(1-3)] assms(4) by (simp add: st_def)
  have "Suc (Suc k) * st < length s"
    using chunk_nth(2) [OF assms(1-3) assms(4)] by (simp add: st_def)
  then have "k * st + nat w \<le> length s" using w le by simp
  then show ?thesis by (simp add: k)
qed

text \<open>
  Claim C5, as the code has it. With \<open>0 \<le> overlap < windowSize\<close> the chunker returns exactly
  one chunk sequence for a text (it is a function of its arguments, and it terminates).
  For consecutive chunks \<open>k\<close> and \<open>k + 1\<close>, the last \<open>overlap\<close> characters of chunk \<open>k\<close> are
  the first \<open>overlap\<close> characters of chunk \<open>k + 1\<close> whenever chunk \<open>k\<close> is a full window;
  when \<open>2 * overlap \<le> windowSize\<close> (as for 900/150 and for the defaults 800/100) that is
  every pair but possibly the one that ends in the final chunk.
\<close>

theorem chunkText_overlap:
  assumes "0 \<le> ov" and "ov < w"
  shows "\<exists>cs. chunkText s w ov = Some cs \<and>
    (\<forall>k. Suc k < length cs \<and> length (cs ! k) = nat w \<longrightarrow>
       lastn (nat ov) (cs ! k) = take (nat ov) (cs ! Suc k)) \<and>
    (2 * ov \<le> w \<longrightarrow>
       (\<forall>k. Suc (Suc k) < length cs \<longrightarrow>
          lastn (nat ov) (cs ! k) = take (nat ov) (cs ! Suc k)))"
proof -
  obtain cs where cs: "chunkText s w ov = Some cs"
    using chunkText_Some [OF assms(2)] by blast
  have "lastn (nat ov) (cs ! k) = take (nat ov) (cs ! Suc k)"
    if "Suc k < length cs" "length (cs ! k) = nat w" for k
    using chunk_overlap_full [OF assms cs that] .
  moreover have "lastn (nat ov) (cs ! k) = take (nat ov) (cs ! Suc k)"
    if "2 * ov \<le> w" "Suc (Suc k) < length cs" for k
  proof -
    have "length (cs ! k) = nat w"
      using chunk_full_window [OF assms cs that(2) that(1)] .
    moreover have "Suc k < length cs" using that(2) by simp
    ultimately show ?thesis using chunk_overlap_full [OF assms cs] by blast
  qed
  ultimately show ?thesis using cs by blast
qed

lemma chunkText_abcde: "chunkText ''abcde'' 3 1 = Some [''abc'', ''cde'', ''e'']"
  by (simp add: chunkText_def chunkLoop.simps slice_def)

theorem chunkText_overlap_witness:
  "(0::int) \<le> 1 \<and> (1::int) < 3 \<and> chunkText ''abcde'' 3 1 = Some [''abc'', ''cde'', ''e''] \<and>
   lastn (nat 1) ''abc'' = take (nat 1) ''cde'' \<and> lastn (nat 1) ''abc'' = ''c''"
proof -
  obtain cs where cs: "chunkText ''abcde'' 3 1 = Some cs"
    and ov: "\<forall>k. Suc k < length cs \<and> length (cs ! k) = nat 3 \<longrightarrow>
       lastn (nat 1) (cs ! k) = take (nat 1) (cs ! Suc k)"
    using chunkText_overlap [of 1 3 "''abcde''"] by auto
  have eq: "cs = [''abc'', ''cde'', ''e'']" using cs chunkText_abcde by simp
  have "Suc 0 < length cs \<and> length (cs ! 0) = nat 3" using eq by simp
  with ov have "lastn (nat 1) (cs ! 0) = take (nat 1) (cs ! Suc 0)" by blast
  then show ?thesis using eq chunkText_abcde by (simp add: lastn_def)
qed

text \<open>With window 4 and overlap 3 the chunks of \<open>abcd\<close> are \<open>abcd\<close>, \<open>bcd\<close>, \<open>cd\<close>, \<open>d\<close>:
  the second and third are consecutive, the third is not the final chunk, and the tail
  \<open>bcd\<close> of the one is not the head \<open>cd\<close> of the other.\<close>

theorem chunkText_overlap_counterexample:
  "(0::int) \<le> 3 \<and> (3::int) < 4 \<and>
   chunkText ''abcd'' 4 3 = Some [''abcd'', ''bcd'', ''cd'', ''d''] \<and>
   Suc (Suc 1) < length [''abcd'', ''bcd'', ''cd'', ''d''] \<and>
   lastn (nat 3) ([''abcd'', ''bcd'', ''cd'', ''d''] ! 1) = ''bcd'' \<and>
   take (nat 3) ([''abcd'', ''bcd'', ''cd'', ''d''] ! Suc 1) = ''cd'' \<and>
   lastn (nat 3) ([''abcd'', ''bcd'', ''cd'', ''d''] ! 1) \<noteq>
     take (nat 3) ([''abcd'', ''bcd'', ''cd'', ''d''] ! Suc 1)"
  by (simp add: chunkText_def chunkLoop.simps slice_def lastn_def)




section \<open>The arithmetic of doubles\<close>

text \<open>Integers below \<open>2\<^sup>5\<^sup>3\<close> and powers of two up to \<open>2\<^sup>1\<^sup>0\<^sup>2\<^sup>3\<close> are doubles, and a result that is
  a double is not rounded; a result of \<open>2\<^sup>1\<^sup>0\<^sup>2\<^sup>4\<close> or more overflows to infinity; rounding
  keeps the sign, so that the sign of the difference of two doubles tells their order.\<close>

lemma finite_doubles_int: "\<bar>n\<bar> < 2 ^ 53 \<Longrightarrow> of_int n \<in> finite_doubles"
  unfolding finite_doubles_def least_double_def
  by (rule CollectI, rule exI [of _ n], rule exI [of _ 1074]) simp

lemma finite_doubles_uminus: "x \<in> finite_doubles \<Longrightarrow> - x \<in> finite_doubles"
  unfolding finite_doubles_def
  apply clarify
  subgoal for m k by (rule exI [of _ "- m"], rule exI [of _ k]) simp
  done

lemma finite_doubles_bound:
  assumes "x \<in> finite_doubles"
  shows "\<bar>x\<bar> < overflow_at"
proof -
  from assms obtain m :: int and k :: nat where m: "\<bar>m\<bar> < 2 ^ 53" and k: "k \<le> 2045"
    and x: "x = of_int m * 2 ^ k * least_double"
    by (auto simp: finite_doubles_def)
  have "\<bar>m\<bar> \<le> 2 ^ 53 - 1" using m by simp
  then have "real_of_int \<bar>m\<bar> \<le> real_of_int (2 ^ 53 - 1)" by (rule of_int_le_iff [THEN iffD2])
  then have m': "\<bar>real_of_int m\<bar> \<le> 2 ^ 53 - 1" by simp
  have k': "(2::real) ^ k \<le> 2 ^ 2045" using k by (intro power_increasing) simp_all
  have "\<bar>x\<bar> = \<bar>real_of_int m\<bar> * 2 ^ k / 2 ^ 1074"
    unfolding x least_double_def by (simp add: abs_mult)
  also have "\<dots> \<le> (2 ^ 53 - 1) * 2 ^ 2045 / 2 ^ 1074"
    using m' k' by (intro divide_right_mono mult_mono) simp_all
  also have "\<dots> = (2 ^ 53 - 1) * 2 ^ 971"
    by (simp add: power_diff [symmetric] field_simps flip: power_add)
  also have "\<dots> = 2 ^ 1024 - 2 ^ 971"
    by (simp add: algebra_simps flip: power_add)
  also have "\<dots> < 2 ^ 1024 - 2 ^ 970"
    by simp
  finally show ?thesis by (simp only: overflow_at_def)
qed

lemma to_double_finite: "x \<in> finite_doubles \<Longrightarrow> to_double x = Fin x"
  using finite_doubles_bound [of x] by (simp add: to_double_def nearest_def)

lemma to_double_int: "\<bar>n\<bar> < 2 ^ 53 \<Longrightarrow> to_double (of_int n) = Fin (of_int n)"
  by (rule to_double_finite) (rule finite_doubles_int)

lemma to_double_small:
  "to_double 0 = Fin 0" "to_double 1 = Fin 1" "to_double (- 1) = Fin (- 1)"
  "to_double 9 = Fin 9" "to_double 16 = Fin 16" "to_double 25 = Fin 25"
  "to_double 5 = Fin 5"
  using to_double_int [of 0] to_double_int [of 1] to_double_int [of "- 1"]
    to_double_int [of 9] to_double_int [of 16] to_double_int [of 25] to_double_int [of 5]
  by simp_all

lemma finite_finite_doubles: "finite finite_doubles"
proof -
  have "finite_doubles \<subseteq>
      (\<lambda>(m, k). real_of_int m * 2 ^ k * least_double) ` ({- (2 ^ 53) .. 2 ^ 53} \<times> {.. 2045})"
  proof
    fix x assume "x \<in> finite_doubles"
    then obtain m :: int and k :: nat where "\<bar>m\<bar> < 2 ^ 53" "k \<le> 2045"
      "x = of_int m * 2 ^ k * least_double"
      by (auto simp: finite_doubles_def)
    then have "(m, k) \<in> {- (2 ^ 53) .. 2 ^ 53} \<times> {.. 2045}"
      "x = (\<lambda>(m, k). real_of_int m * 2 ^ k * least_double) (m, k)"
      by auto
    then show "x \<in> (\<lambda>(m, k). real_of_int m * 2 ^ k * least_double) `
        ({- (2 ^ 53) .. 2 ^ 53} \<times> {.. 2045})"
      by (rule rev_image_eqI)
  qed
  then show ?thesis by (rule finite_subset) simp
qed

lemma zero_finite_double: "0 \<in> finite_doubles"
  using finite_doubles_int [of 0] by simp

lemma least_finite_double: "least_double \<in> finite_doubles"
  unfolding finite_doubles_def by (rule CollectI, rule exI [of _ 1], rule exI [of _ 0]) simp

lemma nearest_closest:
  "nearest x \<in> finite_doubles \<and> (\<forall>d'\<in>finite_doubles. \<bar>x - nearest x\<bar> \<le> \<bar>x - d'\<bar>)"
proof (cases "x \<in> finite_doubles")
  case True
  then show ?thesis by (simp add: nearest_def)
next
  case False
  define N where "N = {d \<in> finite_doubles. \<forall>d'\<in>finite_doubles. \<bar>x - d\<bar> \<le> \<bar>x - d'\<bar>}"
  have "finite_doubles \<noteq> {}" using zero_finite_double by blast
  from ex_is_arg_min_if_finite [OF finite_finite_doubles this, of "\<lambda>d. \<bar>x - d\<bar>"]
  obtain d where "d \<in> finite_doubles" "\<forall>d'\<in>finite_doubles. \<bar>x - d\<bar> \<le> \<bar>x - d'\<bar>"
    by (auto simp: is_arg_min_def not_less)
  then have ne: "\<exists>d. d \<in> N" by (auto simp: N_def)
  have eq: "nearest x =
      (if \<exists>d\<in>N. even_significand d then (SOME d. d \<in> N \<and> even_significand d)
       else (SOME d. d \<in> N))"
    unfolding nearest_def N_def Let_def using False by (simp only: if_False)
  have "nearest x \<in> N"
  proof (cases "\<exists>d\<in>N. even_significand d")
    case True
    then have "\<exists>d. d \<in> N \<and> even_significand d" by blast
    then have "(SOME d. d \<in> N \<and> even_significand d) \<in> N"
      by (rule someI2_ex) (rule conjunct1)
    then show ?thesis using True by (simp only: eq if_True)
  next
    case F: False
    have "(SOME d. d \<in> N) \<in> N" using ne by (rule someI_ex)
    then show ?thesis using F by (simp only: eq if_False)
  qed
  then show ?thesis by (simp add: N_def)
qed

lemma least_double_pos: "0 < least_double"
  by (simp add: least_double_def)

lemma finite_doubles_multiple:
  assumes "x \<in> finite_doubles"
  shows "\<exists>j::int. x = of_int j * least_double"
proof -
  from assms obtain m :: int and k :: nat where "x = of_int m * 2 ^ k * least_double"
    by (auto simp: finite_doubles_def)
  then have "x = of_int (m * 2 ^ k) * least_double" by simp
  then show ?thesis by blast
qed

lemma nearest_sign:
  assumes "x \<in> finite_doubles" and "y \<in> finite_doubles"
  shows "(0 < nearest (y - x)) = (x < y)"
proof -
  let ?z = "y - x"
  note nc = nearest_closest [of ?z]
  show ?thesis
  proof (cases "x < y")
    case True
    from finite_doubles_multiple [OF assms(1)] finite_doubles_multiple [OF assms(2)]
    obtain i j :: int where x: "x = of_int i * least_double" and y: "y = of_int j * least_double"
      by blast
    have "of_int i * least_double < of_int j * least_double" using True x y by simp
    then have "i < j" using least_double_pos by simp
    then have "1 \<le> j - i" by simp
    then have "(1::real) \<le> of_int (j - i)" by (metis of_int_1_le_iff)
    then have "1 * least_double \<le> of_int (j - i) * least_double"
      using least_double_pos by (intro mult_right_mono) simp_all
    then have ge: "least_double \<le> ?z" by (simp add: x y algebra_simps)
    have "\<bar>?z - nearest ?z\<bar> \<le> \<bar>?z - least_double\<bar>"
      using nc least_finite_double by blast
    then have "0 < nearest ?z" using ge least_double_pos by linarith
    then show ?thesis using True by simp
  next
    case False
    have "\<bar>?z - nearest ?z\<bar> \<le> \<bar>?z - 0\<bar>"
      using nc zero_finite_double by blast
    then have "\<not> 0 < nearest ?z" using False by linarith
    then show ?thesis using False by simp
  qed
qed

lemma to_double_sign:
  assumes "x \<in> finite_doubles" and "y \<in> finite_doubles"
  shows "d_positive (to_double (y - x)) = (x < y)"
proof -
  have "0 < overflow_at" by (simp add: overflow_at_def)
  then show ?thesis
    using nearest_sign [OF assms] by (auto simp: to_double_def)
qed

lemma d_sub_sign:
  assumes "wf_double a" "wf_double b" "a \<noteq> NaN" "b \<noteq> NaN"
  shows "d_positive (d_sub b a) = (\<not> d_le b a)"
proof (cases a; cases b)
  fix x y assume "a = Fin x" "b = Fin y"
  then show ?thesis
    using assms to_double_sign [of x y] by (auto simp: d_sub_def wf_double_def)
qed (use assms in \<open>simp_all add: d_sub_def\<close>)

lemma d_le_total: "a \<noteq> NaN \<Longrightarrow> b \<noteq> NaN \<Longrightarrow> d_le a b \<or> d_le b a"
  by (cases a; cases b) auto

lemma d_le_trans: "d_le a b \<Longrightarrow> d_le b c \<Longrightarrow> d_le a c"
  by (cases a; cases b; cases c) auto

lemma wf_to_double: "wf_double (to_double x)"
  using nearest_closest [of x] by (simp add: to_double_def wf_double_def)

lemma wf_d_div: "wf_double (d_div a b)"
  by (cases a; cases b) (simp_all add: wf_to_double, simp_all add: wf_double_def zero_finite_double)

lemma finite_doubles_pow2: "k \<le> 1023 \<Longrightarrow> 2 ^ k \<in> finite_doubles"
proof (cases "k \<le> 971")
  case True
  have "(2::real) ^ k = real_of_int 1 * 2 ^ (k + 1074) * least_double"
    by (simp add: least_double_def power_add)
  moreover have "\<bar>1::int\<bar> < 2 ^ 53" "k + 1074 \<le> 2045" using True by simp_all
  ultimately show ?thesis unfolding finite_doubles_def by blast
next
  case False
  assume k: "k \<le> 1023"
  define j where "j = k - 971"
  have j: "j \<le> 52" "k = j + 971" using False k by (simp_all add: j_def)
  have "(2::real) ^ 2045 / 2 ^ 1074 = 2 ^ 971"
    by (simp add: power_diff [symmetric] field_simps flip: power_add)
  then have "(2::real) ^ k = 2 ^ j * (2 ^ 2045 / 2 ^ 1074)"
    unfolding j(2) by (simp only: power_add)
  then have "(2::real) ^ k = real_of_int (2 ^ j) * 2 ^ 2045 * least_double"
    by (simp add: least_double_def)
  moreover have "(2::int) ^ j < 2 ^ 53" using j(1) by (intro power_strict_increasing) simp_all
  then have "\<bar>(2::int) ^ j\<bar> < 2 ^ 53" by simp
  ultimately show ?thesis unfolding finite_doubles_def by blast
qed

lemma overflow_pow2: "1024 \<le> k \<Longrightarrow> overflow_at \<le> 2 ^ k"
proof -
  assume "1024 \<le> k"
  then have "(2::real) ^ 1024 \<le> 2 ^ k" by (intro power_increasing) simp_all
  moreover have "overflow_at \<le> 2 ^ 1024" by (simp add: overflow_at_def)
  ultimately show ?thesis by linarith
qed

lemma to_double_overflow: "overflow_at \<le> x \<Longrightarrow> to_double x = PInf"
proof -
  assume x: "overflow_at \<le> x"
  have "0 < overflow_at" by (simp add: overflow_at_def)
  then show ?thesis using x by (simp add: to_double_def)
qed

lemma d_sub_small:
  "d_sub (Fin 0) (Fin 0) = Fin 0" "d_sub (Fin 1) (Fin 1) = Fin 0"
  "d_sub (Fin 1) (Fin 0) = Fin 1" "d_sub (Fin 0) (Fin 1) = Fin (- 1)"
  by (simp_all add: d_sub_def to_double_small)

section \<open>Cosine similarity\<close>

lemma foldl_add_sum_list:
  "foldl (\<lambda>s (v, i). s + g v i) x ps = x + (\<Sum>(v, i)\<leftarrow>ps. (g v i :: real))"
  by (induction ps arbitrary: x) (auto simp: algebra_simps)

lemma reduce_sum: "reduce (\<lambda>s v i. s + g v i) 0 a = (\<Sum>(v, i)\<leftarrow>zip a [0..<length a]. (g v i :: real))"
  by (simp add: reduce_def foldl_add_sum_list)

lemma reduce_squares: "reduce (\<lambda>s v i. s + v * v) 0 a = (\<Sum>x\<leftarrow>a. x * (x :: real))"
proof -
  have "map (\<lambda>(v, i). v * v) (zip a [0..<length a]) =
      map (\<lambda>x. x * x) (map fst (zip a [0..<length a]))"
    unfolding map_map by (simp add: case_prod_unfold comp_def)
  also have "map fst (zip a [0..<length a]) = a" by simp
  finally show ?thesis by (simp add: reduce_sum)
qed

lemma dot_indexed:
  "(\<Sum>(v, i)\<leftarrow>zip a [n..<n + length a]. v * nullish_or (at_index b i) 0) =
   (\<Sum>(x, y)\<leftarrow>zip a (drop n b). x * (y :: real))"
proof (induction a arbitrary: n)
  case Nil
  then show ?case by simp
next
  case (Cons x a)
  have up: "[n..<n + length (x # a)] = n # [Suc n..<Suc n + length a]"
    using upt_conv_Cons [of n "n + Suc (length a)"] by simp
  show ?case
  proof (cases "n < length b")
    case True
    then have "drop n b = b ! n # drop (Suc n) b" by (simp add: Cons_nth_drop_Suc)
    then show ?thesis using Cons.IH [of "Suc n"] True
      unfolding up by (simp add: at_index_def nullish_or_def)
  next
    case False
    then have "drop n b = []" "drop (Suc n) b = []" by simp_all
    then show ?thesis using Cons.IH [of "Suc n"] False
      unfolding up by (simp add: at_index_def nullish_or_def)
  qed
qed

lemma reduce_dot:
  "reduce (\<lambda>s v i. s + v * nullish_or (at_index b i) 0) 0 a = dot_product a b"
  using dot_indexed [where a = a and n = 0 and b = b] by (simp add: reduce_sum dot_product_def)

lemma cosine_closed_form:
  "cosine a b =
     (if magnitude a = 0 \<or> magnitude b = 0 then 0
      else dot_product a b / (magnitude a * magnitude b))"
  by (simp add: cosine_def Let_def reduce_dot reduce_squares magnitude_def)

lemma dot_product_pad: "dot_product a (b @ replicate k 0) = dot_product a b"
proof -
  have "(\<Sum>(x, y)\<leftarrow>zip xs (replicate k (0::real)). x * y) = 0" for xs :: "real list"
  proof (induction k arbitrary: xs)
    case 0
    then show ?case by simp
  next
    case (Suc k)
    then show ?case by (cases xs) simp_all
  qed
  moreover have "zip (take (length b) a) b = zip a b"
    by (induction a arbitrary: b) (auto simp: zip_Cons1 split: list.splits)
  ultimately show ?thesis
    by (simp add: dot_product_def zip_append2)
qed

lemma magnitude_pad: "magnitude (b @ replicate k 0) = magnitude b"
  by (simp add: magnitude_def sum_list_replicate)

text \<open>
  Claim C9. \<open>cosine\<close> returns a number for two lists of any lengths, and a second vector
  shorter than the first counts as if it were padded with zeros to the length of the
  first: the result is the same. No branch of \<open>cosine\<close> raises on a length mismatch.
\<close>

theorem cosine_short_vector:
  "cosine a b = cosine a (b @ replicate (length a - length b) 0)"
  by (simp add: cosine_closed_form dot_product_pad magnitude_pad)

subsection \<open>In any arithmetic\<close>

lemma foldl_indexed_products:
  "n + length a \<le> length b \<Longrightarrow>
   foldl (\<lambda>s (v, i). g s v (nullish_or (at_index b i) z)) x (zip a [n..<n + length a]) =
   foldl (\<lambda>s (v, w). g s v w) x (zip a (drop n b))"
proof (induction a arbitrary: n x)
  case Nil
  then show ?case by simp
next
  case (Cons v a)
  have up: "[n..<n + length (v # a)] = n # [Suc n..<Suc n + length a]"
    using upt_conv_Cons [of n "n + Suc (length a)"] by simp
  have n: "n < length b" using Cons.prems by simp
  then have dr: "drop n b = b ! n # drop (Suc n) b" by (simp add: Cons_nth_drop_Suc)
  have "Suc n + length a \<le> length b" using Cons.prems by simp
  from Cons.IH [OF this] show ?case
    unfolding up dr using n by (simp add: at_index_def nullish_or_def)
qed

lemma foldl_ignore_index:
  "length ns = length a \<Longrightarrow>
   foldl (\<lambda>s (v, i). h s v) x (zip a ns) = foldl h x a"
proof (induction a arbitrary: ns x)
  case Nil
  then show ?case by simp
next
  case (Cons v a)
  then obtain n ns' where "ns = n # ns'" by (cases ns) auto
  then show ?case using Cons by simp
qed

lemma reduce_dot_with:
  assumes "length a \<le> length b"
  shows "reduce (\<lambda>s v i. num_add ar s (num_mul ar v (nullish_or (at_index b i) (num_zero ar))))
      (num_zero ar) a = dot_product_with ar a b"
  using foldl_indexed_products
    [of 0 a b "\<lambda>s v w. num_add ar s (num_mul ar v w)" "num_zero ar" "num_zero ar"] assms
  by (simp add: reduce_def dot_product_with_def)

lemma reduce_squares_with:
  "num_sqrt ar (reduce (\<lambda>s v i. num_add ar s (num_mul ar v v)) (num_zero ar) a) =
   magnitude_with ar a"
  using foldl_ignore_index [of "[0..<length a]" a "\<lambda>s v. num_add ar s (num_mul ar v v)"]
  by (simp add: reduce_def magnitude_with_def)

lemma reduce_dot_padded:
  "reduce (\<lambda>s v i. num_add ar s (num_mul ar v (nullish_or (at_index b i) (num_zero ar))))
      (num_zero ar) a =
   dot_product_with ar a (b @ replicate (length a - length b) (num_zero ar))"
proof -
  let ?b = "b @ replicate (length a - length b) (num_zero ar)"
  have same: "nullish_or (at_index b i) (num_zero ar) = nullish_or (at_index ?b i) (num_zero ar)"
    if "i < length a" for i
    using that by (auto simp: at_index_def nullish_or_def nth_append)
  have "reduce (\<lambda>s v i. num_add ar s (num_mul ar v (nullish_or (at_index b i) (num_zero ar))))
      (num_zero ar) a =
    reduce (\<lambda>s v i. num_add ar s (num_mul ar v (nullish_or (at_index ?b i) (num_zero ar))))
      (num_zero ar) a"
    unfolding reduce_def
    by (rule foldl_cong) (auto simp: same dest!: set_zip_rightD)
  also have "\<dots> = dot_product_with ar a ?b"
    by (rule reduce_dot_with) simp
  finally show ?thesis .
qed

text \<open>
  Claim C6. For every pair of vectors, in whatever arithmetic the numbers have (in
  particular in the doubles, \<open>ieee\<close>, and in the reals, \<open>exact\<close>), the similarity that
  \<open>cosine\<close> returns is the dot product divided by the product of the two magnitudes, each
  computed in that arithmetic; it is the literal 0 as soon as one of the two computed
  magnitudes is 0, whatever the division would have given there; and \<open>cosine\<close> has no
  raising branch: it is a total function. A second vector shorter than the first enters
  the dot product padded with zeros; for two vectors of one dimension the padding is
  empty.
\<close>

theorem cosine_formula:
  "cosine_with ar a b =
     (if num_is_zero ar (magnitude_with ar a) \<or> num_is_zero ar (magnitude_with ar b)
      then num_zero ar
      else num_div ar
             (dot_product_with ar a (b @ replicate (length a - length b) (num_zero ar)))
             (num_mul ar (magnitude_with ar a) (magnitude_with ar b)))"
  by (simp add: cosine_with_def Let_def reduce_dot_padded reduce_squares_with)

text \<open>In the doubles: against the zero vector the division would give NaN (0 / 0), and
  \<open>cosine\<close> returns 0; the vector (3, 4) against itself gives 25 / (5 * 5) = 1.\<close>

theorem cosine_formula_witness:
  "cosine_with ieee [Fin 0, Fin 0] [Fin 3, Fin 4] = Fin 0 \<and>
   magnitude_with ieee [Fin 0, Fin 0] = Fin 0 \<and>
   magnitude_with ieee [Fin 3, Fin 4] = Fin 5 \<and>
   dot_product_with ieee [Fin 0, Fin 0] [Fin 3, Fin 4] = Fin 0 \<and>
   d_div (Fin 0) (d_mul (Fin 0) (Fin 5)) = NaN \<and>
   cosine_with ieee [Fin 3, Fin 4] [Fin 3, Fin 4] = Fin 1 \<and>
   dot_product_with ieee [Fin 3, Fin 4] [Fin 3, Fin 4] = Fin 25"
proof -
  have mags: "magnitude_with ieee [Fin 0, Fin 0] = Fin 0"
    "magnitude_with ieee [Fin 3, Fin 4] = Fin 5"
    "dot_product_with ieee [Fin 0, Fin 0] [Fin 3, Fin 4] = Fin 0"
    "dot_product_with ieee [Fin 3, Fin 4] [Fin 3, Fin 4] = Fin 25"
    by (simp_all add: magnitude_with_def dot_product_with_def ieee_def to_double_small)
  have "cosine_with ieee [Fin 0, Fin 0] [Fin 3, Fin 4] = Fin 0"
    using cosine_formula [of ieee "[Fin 0, Fin 0]" "[Fin 3, Fin 4]"] mags
    by (simp add: ieee_def)
  moreover have "cosine_with ieee [Fin 3, Fin 4] [Fin 3, Fin 4] = Fin 1"
    using cosine_formula [of ieee "[Fin 3, Fin 4]" "[Fin 3, Fin 4]"] mags
    by (simp add: ieee_def to_double_small)
  moreover have "d_div (Fin 0) (d_mul (Fin 0) (Fin 5)) = NaN"
    by (simp add: to_double_small)
  ultimately show ?thesis using mags by simp
qed

text \<open>Over the reals, \<open>cosine_with\<close> is \<open>cosine\<close>.\<close>

lemma cosine_exact: "cosine a b = cosine_with exact a b"
  by (simp add: cosine_def cosine_with_def exact_def)

section \<open>The ranker\<close>

lemma before_extend:
  "before (chunk.extend c m) (chunk.extend c' m') = before c c'"
  by (simp add: before_def chunk.defs)

lemma sorted_wrt_before_zip:
  "sorted_wrt before chunks \<Longrightarrow>
   sorted_wrt before (map (\<lambda>(c, e). chunk.extend c (f e)) (zip chunks embeddings))"
proof (induction chunks arbitrary: embeddings)
  case Nil
  then show ?case by simp
next
  case (Cons c cs)
  show ?case
  proof (cases embeddings)
    case Nil
    then show ?thesis by simp
  next
    case (Cons e es)
    have "before (chunk.extend c (f e)) z"
      if "z \<in> set (map (\<lambda>(c, e). chunk.extend c (f e)) (zip cs es))" for z
    proof -
      from that obtain c' e' where "(c', e') \<in> set (zip cs es)" "z = chunk.extend c' (f e')"
        by auto
      moreover then have "c' \<in> set cs" by (auto dest: set_zip_leftD)
      ultimately show ?thesis using Cons.prems by (auto simp: before_extend)
    qed
    then show ?thesis using Cons Cons.IH [of es] Cons.prems by simp
  qed
qed

lemma slice_prefix: "0 \<le> e \<Longrightarrow> slice s 0 e = take (nat e) s"
  by (simp add: slice_def Let_def min_def)

lemma doc_chunks_shape:
  assumes "doc_chunks d di = Some cs"
  shows "map doc_index cs = replicate (length cs) di"
    and "map chunk_index cs = [0..<length cs]"
proof -
  obtain dcs where cs: "cs = map (\<lambda>(c, idx). \<lparr>c_text = normalize c, c_source = doc_source d,
        doc_index = di, chunk_index = idx\<rparr>) (zip dcs [0..<length dcs])"
    using assms by (auto simp: doc_chunks_def split: option.splits)
  show "map doc_index cs = replicate (length cs) di"
    unfolding cs by (simp add: case_prod_unfold comp_def map_replicate_const)
  have "map chunk_index cs = map snd (zip dcs [0..<length dcs])"
    unfolding cs by (simp add: case_prod_unfold comp_def)
  then show "map chunk_index cs = [0..<length cs]"
    unfolding cs by simp
qed

lemma doc_chunks_ordered:
  assumes "doc_chunks d di = Some cs"
  shows "sorted_wrt before cs" and "\<forall>c\<in>set cs. doc_index c = di"
proof -
  have di: "doc_index (cs ! i) = di" if "i < length cs" for i
    using doc_chunks_shape(1) [OF assms] that
    by (metis length_map nth_map nth_replicate)
  have ci: "chunk_index (cs ! i) = i" if "i < length cs" for i
    using doc_chunks_shape(2) [OF assms] that
    by (metis add_0 length_map nth_map nth_upt)
  show "sorted_wrt before cs"
    unfolding sorted_wrt_iff_nth_less by (simp add: before_def di ci)
  show "\<forall>c\<in>set cs. doc_index c = di"
    using di by (auto simp: in_set_conv_nth)
qed

lemma build_from_ordered:
  assumes "build_from ds di acc = Some chunks"
    and "sorted_wrt before acc" and "\<forall>c\<in>set acc. doc_index c < di"
  shows "sorted_wrt before chunks"
  using assms
proof (induction ds arbitrary: di acc)
  case Nil
  then show ?case by simp
next
  case (Cons d ds)
  from Cons.prems(1) obtain cs where cs: "doc_chunks d di = Some cs"
    and rest: "build_from ds (Suc di) (acc @ cs) = Some chunks"
    by (auto split: option.splits)
  have "before a c" if "a \<in> set acc" "c \<in> set cs" for a c
    using that Cons.prems(3) doc_chunks_ordered(2) [OF cs] by (auto simp: before_def)
  then have "sorted_wrt before (acc @ cs)"
    using Cons.prems(2) doc_chunks_ordered(1) [OF cs]
    by (simp add: sorted_wrt_append)
  moreover have "\<forall>c\<in>set (acc @ cs). doc_index c < Suc di"
    using Cons.prems(3) doc_chunks_ordered(2) [OF cs] by auto
  ultimately show ?case using Cons.IH [OF rest] by blast
qed

lemma build_chunks_ordered: "build_chunks docs = Some chunks \<Longrightarrow> sorted_wrt before chunks"
  using build_from_ordered [of docs 0 "[]" chunks] by (simp add: build_chunks_def)

subsection \<open>The sort and the selection, in doubles\<close>

lemma mset_js_insort_with: "mset (js_insort_with pos cmp x ys) = add_mset x (mset ys)"
  by (induction ys) auto

lemma mset_js_sort_with: "mset (js_sort_with pos cmp xs) = mset xs"
  by (induction xs) (auto simp: js_sort_with_def mset_js_insort_with)

lemma set_js_sort_with: "set (js_sort_with pos cmp xs) = set xs"
  using mset_js_sort_with [of pos cmp xs] by (metis set_mset_mset)

lemma length_js_sort_with: "length (js_sort_with pos cmp xs) = length xs"
  using mset_js_sort_with [of pos cmp xs] by (metis size_mset)

lemma set_js_insort_with: "set (js_insort_with pos cmp x ys) = insert x (set ys)"
  by (induction ys) auto

lemma sorted_js_insort_with:
  assumes tot: "\<And>a b. a \<in> S \<Longrightarrow> b \<in> S \<Longrightarrow> le a b \<or> le b a"
    and trans: "\<And>a b c. a \<in> S \<Longrightarrow> b \<in> S \<Longrightarrow> c \<in> S \<Longrightarrow> le a b \<Longrightarrow> le b c \<Longrightarrow> le a c"
    and cmp: "\<And>a b. a \<in> S \<Longrightarrow> b \<in> S \<Longrightarrow> pos (cmp a b) = (\<not> le b a)"
    and x: "x \<in> S"
  shows "set ys \<subseteq> S \<Longrightarrow> \<forall>y\<in>set ys. tb x y \<Longrightarrow>
    sorted_wrt (\<lambda>a b. le b a \<and> (le a b \<longrightarrow> tb a b)) ys \<Longrightarrow>
    sorted_wrt (\<lambda>a b. le b a \<and> (le a b \<longrightarrow> tb a b)) (js_insort_with pos cmp x ys)"
proof (induction ys)
  case Nil
  then show ?case by simp
next
  case (Cons y ys)
  have y: "y \<in> S" and ys: "set ys \<subseteq> S" using Cons.prems(1) by simp_all
  have tby: "tb x y" and tbys: "\<forall>z\<in>set ys. tb x z" using Cons.prems(2) by simp_all
  have hd: "\<forall>z\<in>set ys. le z y \<and> (le y z \<longrightarrow> tb y z)"
    and tl: "sorted_wrt (\<lambda>a b. le b a \<and> (le a b \<longrightarrow> tb a b)) ys"
    using Cons.prems(3) by simp_all
  show ?case
  proof (cases "pos (cmp x y)")
    case False
    then have yx: "le y x" using cmp [OF x y] by simp
    have "le z x \<and> (le x z \<longrightarrow> tb x z)" if z: "z \<in> set ys" for z
    proof -
      have "z \<in> S" using z ys by blast
      moreover have "le z y" using hd z by blast
      ultimately have "le z x" using trans [OF _ y x _ yx] by blast
      then show ?thesis using tbys z by blast
    qed
    then have "\<forall>z\<in>set (y # ys). le z x \<and> (le x z \<longrightarrow> tb x z)"
      using yx tby by simp
    then have "sorted_wrt (\<lambda>a b. le b a \<and> (le a b \<longrightarrow> tb a b)) (x # y # ys)"
      using Cons.prems(3) by (simp only: sorted_wrt.simps) blast
    then show ?thesis using False by simp
  next
    case True
    then have nyx: "\<not> le y x" using cmp [OF x y] by simp
    then have xy: "le x y" using tot [OF x y] by blast
    have ih: "sorted_wrt (\<lambda>a b. le b a \<and> (le a b \<longrightarrow> tb a b)) (js_insort_with pos cmp x ys)"
      using Cons.IH [OF ys tbys tl] .
    have "\<forall>z\<in>set (js_insort_with pos cmp x ys). le z y \<and> (le y z \<longrightarrow> tb y z)"
      using hd xy nyx by (simp add: set_js_insort_with)
    then have "sorted_wrt (\<lambda>a b. le b a \<and> (le a b \<longrightarrow> tb a b))
        (y # js_insort_with pos cmp x ys)"
      using ih by simp
    then show ?thesis using True by simp
  qed
qed

lemma sorted_js_sort_with:
  assumes tot: "\<And>a b. a \<in> S \<Longrightarrow> b \<in> S \<Longrightarrow> le a b \<or> le b a"
    and trans: "\<And>a b c. a \<in> S \<Longrightarrow> b \<in> S \<Longrightarrow> c \<in> S \<Longrightarrow> le a b \<Longrightarrow> le b c \<Longrightarrow> le a c"
    and cmp: "\<And>a b. a \<in> S \<Longrightarrow> b \<in> S \<Longrightarrow> pos (cmp a b) = (\<not> le b a)"
  shows "set xs \<subseteq> S \<Longrightarrow> sorted_wrt tb xs \<Longrightarrow>
    sorted_wrt (\<lambda>a b. le b a \<and> (le a b \<longrightarrow> tb a b)) (js_sort_with pos cmp xs)"
proof (induction xs)
  case Nil
  then show ?case by (simp add: js_sort_with_def)
next
  case (Cons x xs)
  have x: "x \<in> S" and xs: "set xs \<subseteq> S" using Cons.prems(1) by simp_all
  have tbx: "\<forall>y\<in>set xs. tb x y" and tl: "sorted_wrt tb xs" using Cons.prems(2) by simp_all
  have ih: "sorted_wrt (\<lambda>a b. le b a \<and> (le a b \<longrightarrow> tb a b)) (js_sort_with pos cmp xs)"
    using Cons.IH [OF xs tl] .
  have "sorted_wrt (\<lambda>a b. le b a \<and> (le a b \<longrightarrow> tb a b))
      (js_insort_with pos cmp x (js_sort_with pos cmp xs))"
    using tot trans cmp x _ _ ih
  proof (rule sorted_js_insort_with)
    show "set (js_sort_with pos cmp xs) \<subseteq> S" using xs by (simp add: set_js_sort_with)
    show "\<forall>y\<in>set (js_sort_with pos cmp xs). tb x y" using tbx by (simp add: set_js_sort_with)
  qed
  then show ?case by (simp add: js_sort_with_def)
qed

lemma js_sort_exact: "js_sort cmp xs = js_sort_with (\<lambda>v. 0 < v) cmp xs"
proof -
  have "js_insort cmp x ys = js_insort_with (\<lambda>v. 0 < v) cmp x ys" for x ys
    by (induction ys) (auto simp: not_less)
  then have "js_insort cmp = js_insort_with (\<lambda>v. 0 < v) cmp"
    by (intro ext)
  then show ?thesis by (simp add: js_sort_def js_sort_with_def)
qed

lemma rank_exact: "rank qEmb chunks embeddings = rank_with exact qEmb chunks embeddings"
  by (simp add: rank_def rank_with_def js_sort_exact cosine_exact exact_def)

lemma wf_cosine_ieee: "wf_double (cosine_with ieee a b)"
  by (simp add: cosine_with_def Let_def ieee_def wf_d_div)
    (simp add: wf_double_def zero_finite_double)

lemma rank_with_ieee_sorted:
  assumes "rank_with ieee qEmb chunks embeddings = Inr topK"
  shows "topK = take (min 6 (length chunks))
      (js_sort_with d_positive (\<lambda>a b. d_sub (score b) (score a))
        (scored_all ieee qEmb chunks embeddings))"
    and "length chunks \<le> length embeddings"
  using assms
  by (simp_all add: rank_with_def scored_all_def Let_def slice_prefix ieee_def split: if_splits)

lemma score_scored_all:
  "t \<in> set (scored_all ar qEmb chunks embeddings) \<Longrightarrow>
   \<exists>e. score t = cosine_with ar qEmb e"
  by (auto simp: scored_all_def chunk.defs)

lemma scored_all_ordered:
  "sorted_wrt before chunks \<Longrightarrow> sorted_wrt before (scored_all ar qEmb chunks embeddings)"
  unfolding scored_all_def by (rule sorted_wrt_before_zip)

lemma ieee_sort_ranked:
  assumes nan: "\<forall>t\<in>set xs. score t \<noteq> NaN"
    and wf: "\<forall>t\<in>set xs. wf_double (score t)"
    and tb: "sorted_wrt tb xs"
  shows "sorted_wrt (\<lambda>a b. d_le (score b) (score a) \<and> (d_le (score a) (score b) \<longrightarrow> tb a b))
    (js_sort_with d_positive (\<lambda>a b. d_sub (score b) (score a)) xs)"
proof (rule sorted_js_sort_with [where S = "set xs" and le = "\<lambda>a b. d_le (score a) (score b)"])
  show "d_le (score a) (score b) \<or> d_le (score b) (score a)"
    if "a \<in> set xs" "b \<in> set xs" for a b
    using that nan by (intro d_le_total) auto
  show "d_le (score a) (score c)"
    if "d_le (score a) (score b)" "d_le (score b) (score c)" for a b c
    using that by (rule d_le_trans)
  show "d_positive (d_sub (score b) (score a)) = (\<not> d_le (score b) (score a))"
    if "a \<in> set xs" "b \<in> set xs" for a b
    using that nan wf by (intro d_sub_sign) auto
  show "set xs \<subseteq> set xs" by simp
  show "sorted_wrt tb xs" by (rule tb)
qed

lemma rank_with_top_k:
  assumes "rank_with ieee qEmb chunks embeddings = Inr topK"
  shows "length topK = min 6 (length chunks) \<and>
    (\<exists>rest. mset (topK @ rest) = mset (scored_all ieee qEmb chunks embeddings) \<and>
       ((\<forall>t\<in>set (scored_all ieee qEmb chunks embeddings). score t \<noteq> NaN) \<longrightarrow>
          sorted_wrt (\<lambda>a b. d_le (score b) (score a)) (topK @ rest) \<and>
          (\<forall>docs. build_chunks docs = Some chunks \<longrightarrow>
             sorted_wrt (\<lambda>a b. d_le (score a) (score b) \<longrightarrow> before a b) (topK @ rest))))"
proof -
  let ?all = "scored_all ieee qEmb chunks embeddings"
  let ?sorted = "js_sort_with d_positive (\<lambda>a b. d_sub (score b) (score a)) ?all"
  note top = rank_with_ieee_sorted [OF assms]
  have len_all: "length ?all = length chunks"
    using top(2) by (simp add: scored_all_def)
  have len: "length topK = min 6 (length chunks)"
    unfolding top(1) by (simp add: length_js_sort_with len_all)
  define rest where "rest = drop (min 6 (length chunks)) ?sorted"
  have whole: "topK @ rest = ?sorted"
    unfolding top(1) rest_def by simp
  have perm: "mset (topK @ rest) = mset ?all"
    unfolding whole by (rule mset_js_sort_with)
  have wf: "\<forall>t\<in>set ?all. wf_double (score t)"
    using score_scored_all [of _ ieee qEmb chunks embeddings] wf_cosine_ieee by metis
  have ordered: "sorted_wrt (\<lambda>a b. d_le (score b) (score a)) (topK @ rest)"
    if nan: "\<forall>t\<in>set ?all. score t \<noteq> NaN"
  proof -
    have "sorted_wrt (\<lambda>a b. True) ?all" by (simp add: sorted_wrt_iff_nth_less)
    from ieee_sort_ranked [OF nan wf this]
    show ?thesis unfolding whole by (rule sorted_wrt_mono_rel [rotated]) simp
  qed
  have ties: "sorted_wrt (\<lambda>a b. d_le (score a) (score b) \<longrightarrow> before a b) (topK @ rest)"
    if nan: "\<forall>t\<in>set ?all. score t \<noteq> NaN" and docs: "build_chunks docs = Some chunks"
    for docs
  proof -
    have "sorted_wrt before ?all"
      using build_chunks_ordered [OF docs] by (rule scored_all_ordered)
    from ieee_sort_ranked [OF nan wf this]
    show ?thesis unfolding whole by (rule sorted_wrt_mono_rel [rotated]) simp
  qed
  show ?thesis using len perm ordered ties by blast
qed

text \<open>
  Claim C4, as the code has it. Whenever the provider returned an embedding for every
  chunk, the ranker returns, for every query vector, a list of exactly min(6, chunk
  count) scored chunks. This list is the head of an arrangement \<open>topK @ rest\<close> of all the
  scored chunks, each of them once. When no similarity is NaN, the arrangement is
  non-increasing in similarity (so that no chunk left out scores higher than a selected
  one), and of two chunks of the same similarity the one that is earlier in the original
  order (document index, then chunk index) comes first, for the chunks that the handler
  assembles. The similarities are doubles, compared as the sort compares them: by the
  sign of \<open>b.score - a.score\<close>.
\<close>

theorem rank_top_k:
  assumes "length chunks \<le> length embeddings"
  shows "\<exists>topK. rank_with ieee qEmb chunks embeddings = Inr topK \<and>
    length topK = min 6 (length chunks) \<and>
    (\<exists>rest. mset (topK @ rest) = mset (scored_all ieee qEmb chunks embeddings) \<and>
       ((\<forall>t\<in>set (scored_all ieee qEmb chunks embeddings). score t \<noteq> NaN) \<longrightarrow>
          sorted_wrt (\<lambda>a b. d_le (score b) (score a)) (topK @ rest) \<and>
          (\<forall>docs. build_chunks docs = Some chunks \<longrightarrow>
             sorted_wrt (\<lambda>a b. d_le (score a) (score b) \<longrightarrow> before a b) (topK @ rest))))"
proof -
  from assms obtain topK where "rank_with ieee qEmb chunks embeddings = Inr topK"
    by (simp add: rank_with_def Let_def)
  with rank_with_top_k [OF this] show ?thesis by blast
qed

text \<open>Seven one-chunk documents, five of similarity 1 and two of similarity 0: the six
  selected are the five of similarity 1 in their original order, then the first of
  similarity 0.\<close>

lemma magnitude_ieee_single:
  assumes "p * p \<in> finite_doubles" and "0 \<le> p" and "p \<in> finite_doubles"
  shows "d_sqrt (d_add (Fin 0) (d_mul (Fin p) (Fin p))) = Fin p"
  using assms by (simp add: to_double_finite)

lemma magnitude_ieee_overflow:
  assumes "overflow_at \<le> r * r"
  shows "d_sqrt (d_add (Fin 0) (d_mul (Fin r) (Fin r))) = PInf"
  using assms by (simp add: to_double_overflow)

lemma cosine_ieee_single:
  "cosine_with ieee [Fin p] [Fin r] =
     (let dot = d_add (Fin 0) (d_mul (Fin p) (Fin r));
          magA = d_sqrt (d_add (Fin 0) (d_mul (Fin p) (Fin p)));
          magB = d_sqrt (d_add (Fin 0) (d_mul (Fin r) (Fin r)))
      in if magA = Fin 0 \<or> magB = Fin 0 then Fin 0 else d_div dot (d_mul magA magB))"
  by (simp add: cosine_with_def ieee_def reduce_def at_index_def nullish_or_def Let_def)

lemma cosine_ieee_overflow:
  assumes "p * p \<in> finite_doubles" and "0 < p" and "p \<in> finite_doubles"
    and "overflow_at \<le> p * r" and "overflow_at \<le> r * r"
  shows "cosine_with ieee [Fin p] [Fin r] = NaN"
proof -
  have "d_add (Fin 0) (d_mul (Fin p) (Fin r)) = PInf"
    using assms(4) by (simp add: to_double_overflow)
  moreover note magnitude_ieee_single [OF assms(1) _ assms(3)] magnitude_ieee_overflow [OF assms(5)]
  ultimately show ?thesis
    unfolding cosine_ieee_single Let_def using assms(2) by (simp add: inf_times_def)
qed

lemma cosine_ieee_unit:
  assumes "p * p \<in> finite_doubles" and "0 < p" and "p \<in> finite_doubles"
  shows "cosine_with ieee [Fin p] [Fin 1] = Fin 1"
    and "cosine_with ieee [Fin p] [Fin (- 1)] = Fin (- 1)"
proof -
  have m1: "d_sqrt (d_add (Fin 0) (d_mul (Fin 1) (Fin 1))) = Fin 1"
    "d_sqrt (d_add (Fin 0) (d_mul (Fin (- 1)) (Fin (- 1)))) = Fin 1"
    by (simp_all add: to_double_small)
  have mp: "d_sqrt (d_add (Fin 0) (d_mul (Fin p) (Fin p))) = Fin p"
    using magnitude_ieee_single [OF assms(1) _ assms(3)] assms(2) by simp
  have np: "- p \<in> finite_doubles" using assms(3) by (rule finite_doubles_uminus)
  show "cosine_with ieee [Fin p] [Fin 1] = Fin 1"
    unfolding cosine_ieee_single Let_def m1 mp using assms(2,3)
    by (simp add: to_double_finite to_double_small)
  show "cosine_with ieee [Fin p] [Fin (- 1)] = Fin (- 1)"
    unfolding cosine_ieee_single Let_def m1 mp using assms(2,3) np
    by (simp add: to_double_finite to_double_small)
qed

lemma rank_with_ieee:
  "rank_with ieee qEmb chunks embeddings =
     (if length embeddings < length chunks then Inl TypeError
      else Inr (take (min 6 (length chunks))
        (js_sort_with d_positive (\<lambda>a b. d_sub (score b) (score a))
          (scored_all ieee qEmb chunks embeddings))))"
  by (simp add: rank_with_def scored_all_def Let_def slice_prefix ieee_def)

lemma pow2_facts:
  "(2::real) ^ 500 * 2 ^ 500 \<in> finite_doubles" "(0::real) < 2 ^ 500"
  "(2::real) ^ 500 \<in> finite_doubles"
  "overflow_at \<le> 2 ^ 500 * 2 ^ 600" "overflow_at \<le> 2 ^ 600 * 2 ^ 600"
proof -
  have "(2::real) ^ 500 * 2 ^ 500 = 2 ^ 1000" "(2::real) ^ 500 * 2 ^ 600 = 2 ^ 1100"
    "(2::real) ^ 600 * 2 ^ 600 = 2 ^ 1200"
    by (simp_all flip: power_add)
  then show "(2::real) ^ 500 * 2 ^ 500 \<in> finite_doubles"
    "overflow_at \<le> 2 ^ 500 * 2 ^ 600" "overflow_at \<le> 2 ^ 600 * 2 ^ 600"
    using finite_doubles_pow2 [of 1000] overflow_pow2 [of 1100] overflow_pow2 [of 1200]
    by simp_all
  show "(0::real) < 2 ^ 500" by (rule zero_less_power) simp
  show "(2::real) ^ 500 \<in> finite_doubles" by (rule finite_doubles_pow2) simp
qed

lemma cosine_ieee_big:
  "cosine_with ieee [Fin (2 ^ 500)] [Fin (- 1)] = Fin (- 1)"
  "cosine_with ieee [Fin (2 ^ 500)] [Fin (2 ^ 600)] = NaN"
  "cosine_with ieee [Fin (2 ^ 500)] [Fin 1] = Fin 1"
  using cosine_ieee_unit [OF pow2_facts(1-3)] cosine_ieee_overflow [OF pow2_facts]
  by blast+

lemma build_chunks_seven:
  "build_chunks (map (\<lambda>s. \<lparr>doc_text = Some s, doc_source = ''policy.pdf''\<rparr>)
      [''a'', ''b'', ''c'', ''d'', ''e'', ''f'', ''g'']) =
   Some [example_chunk ''a'' 0, example_chunk ''b'' 1, example_chunk ''c'' 2,
         example_chunk ''d'' 3, example_chunk ''e'' 4, example_chunk ''f'' 5,
         example_chunk ''g'' 6]"
  by (simp add: build_chunks_def doc_chunks_def chunkText_def chunkLoop.simps slice_def
      or_empty_def normalize_def trim_def isSpace_def example_chunk_def)

lemma cosine_ieee_axes:
  "cosine_with ieee [Fin 1, Fin 0] [Fin 1, Fin 0] = Fin 1"
  "cosine_with ieee [Fin 1, Fin 0] [Fin 0, Fin 1] = Fin 0"
  by (simp_all add: cosine_with_def ieee_def reduce_def at_index_def nullish_or_def
      to_double_small)

lemma rank_seven:
  "rank_with ieee [Fin 1, Fin 0]
     [example_chunk ''a'' 0, example_chunk ''b'' 1, example_chunk ''c'' 2,
      example_chunk ''d'' 3, example_chunk ''e'' 4, example_chunk ''f'' 5,
      example_chunk ''g'' 6]
     [[Fin 0, Fin 1], [Fin 1, Fin 0], [Fin 0, Fin 1], [Fin 1, Fin 0], [Fin 1, Fin 0],
      [Fin 1, Fin 0], [Fin 1, Fin 0]] =
   Inr [example_scored ''b'' 1 [Fin 1, Fin 0] (Fin 1),
        example_scored ''d'' 3 [Fin 1, Fin 0] (Fin 1),
        example_scored ''e'' 4 [Fin 1, Fin 0] (Fin 1),
        example_scored ''f'' 5 [Fin 1, Fin 0] (Fin 1),
        example_scored ''g'' 6 [Fin 1, Fin 0] (Fin 1),
        example_scored ''a'' 0 [Fin 0, Fin 1] (Fin 0)]"
  by (simp add: rank_with_ieee scored_all_def js_sort_with_def example_scored_def
      cosine_ieee_axes d_sub_small chunk.defs)

theorem rank_top_k_witness:
  "length [example_chunk ''a'' 0, example_chunk ''b'' 1, example_chunk ''c'' 2,
      example_chunk ''d'' 3, example_chunk ''e'' 4, example_chunk ''f'' 5,
      example_chunk ''g'' 6] \<le>
   length [[Fin 0, Fin 1], [Fin 1, Fin 0], [Fin 0, Fin 1], [Fin 1, Fin 0], [Fin 1, Fin 0],
      [Fin 1, Fin 0], [Fin 1, Fin 0]] \<and>
   build_chunks (map (\<lambda>s. \<lparr>doc_text = Some s, doc_source = ''policy.pdf''\<rparr>)
      [''a'', ''b'', ''c'', ''d'', ''e'', ''f'', ''g'']) =
   Some [example_chunk ''a'' 0, example_chunk ''b'' 1, example_chunk ''c'' 2,
         example_chunk ''d'' 3, example_chunk ''e'' 4, example_chunk ''f'' 5,
         example_chunk ''g'' 6] \<and>
   rank_with ieee [Fin 1, Fin 0]
     [example_chunk ''a'' 0, example_chunk ''b'' 1, example_chunk ''c'' 2,
      example_chunk ''d'' 3, example_chunk ''e'' 4, example_chunk ''f'' 5,
      example_chunk ''g'' 6]
     [[Fin 0, Fin 1], [Fin 1, Fin 0], [Fin 0, Fin 1], [Fin 1, Fin 0], [Fin 1, Fin 0],
      [Fin 1, Fin 0], [Fin 1, Fin 0]] =
   Inr [example_scored ''b'' 1 [Fin 1, Fin 0] (Fin 1),
        example_scored ''d'' 3 [Fin 1, Fin 0] (Fin 1),
        example_scored ''e'' 4 [Fin 1, Fin 0] (Fin 1),
        example_scored ''f'' 5 [Fin 1, Fin 0] (Fin 1),
        example_scored ''g'' 6 [Fin 1, Fin 0] (Fin 1),
        example_scored ''a'' 0 [Fin 0, Fin 1] (Fin 0)] \<and>
   (\<exists>rest.
      mset ([example_scored ''b'' 1 [Fin 1, Fin 0] (Fin 1),
             example_scored ''d'' 3 [Fin 1, Fin 0] (Fin 1),
             example_scored ''e'' 4 [Fin 1, Fin 0] (Fin 1),
             example_scored ''f'' 5 [Fin 1, Fin 0] (Fin 1),
             example_scored ''g'' 6 [Fin 1, Fin 0] (Fin 1),
             example_scored ''a'' 0 [Fin 0, Fin 1] (Fin 0)] @ rest) =
      mset [example_scored ''a'' 0 [Fin 0, Fin 1] (Fin 0),
            example_scored ''b'' 1 [Fin 1, Fin 0] (Fin 1),
            example_scored ''c'' 2 [Fin 0, Fin 1] (Fin 0),
            example_scored ''d'' 3 [Fin 1, Fin 0] (Fin 1),
            example_scored ''e'' 4 [Fin 1, Fin 0] (Fin 1),
            example_scored ''f'' 5 [Fin 1, Fin 0] (Fin 1),
            example_scored ''g'' 6 [Fin 1, Fin 0] (Fin 1)] \<and>
      sorted_wrt (\<lambda>a b. d_le (score b) (score a))
        ([example_scored ''b'' 1 [Fin 1, Fin 0] (Fin 1),
          example_scored ''d'' 3 [Fin 1, Fin 0] (Fin 1),
          example_scored ''e'' 4 [Fin 1, Fin 0] (Fin 1),
          example_scored ''f'' 5 [Fin 1, Fin 0] (Fin 1),
          example_scored ''g'' 6 [Fin 1, Fin 0] (Fin 1),
          example_scored ''a'' 0 [Fin 0, Fin 1] (Fin 0)] @ rest) \<and>
      sorted_wrt (\<lambda>a b. d_le (score a) (score b) \<longrightarrow> before a b)
        ([example_scored ''b'' 1 [Fin 1, Fin 0] (Fin 1),
          example_scored ''d'' 3 [Fin 1, Fin 0] (Fin 1),
          example_scored ''e'' 4 [Fin 1, Fin 0] (Fin 1),
          example_scored ''f'' 5 [Fin 1, Fin 0] (Fin 1),
          example_scored ''g'' 6 [Fin 1, Fin 0] (Fin 1),
          example_scored ''a'' 0 [Fin 0, Fin 1] (Fin 0)] @ rest))"
proof -
  have all: "scored_all ieee [Fin 1, Fin 0]
     [example_chunk ''a'' 0, example_chunk ''b'' 1, example_chunk ''c'' 2,
      example_chunk ''d'' 3, example_chunk ''e'' 4, example_chunk ''f'' 5,
      example_chunk ''g'' 6]
     [[Fin 0, Fin 1], [Fin 1, Fin 0], [Fin 0, Fin 1], [Fin 1, Fin 0], [Fin 1, Fin 0],
      [Fin 1, Fin 0], [Fin 1, Fin 0]] =
     [example_scored ''a'' 0 [Fin 0, Fin 1] (Fin 0),
      example_scored ''b'' 1 [Fin 1, Fin 0] (Fin 1),
      example_scored ''c'' 2 [Fin 0, Fin 1] (Fin 0),
      example_scored ''d'' 3 [Fin 1, Fin 0] (Fin 1),
      example_scored ''e'' 4 [Fin 1, Fin 0] (Fin 1),
      example_scored ''f'' 5 [Fin 1, Fin 0] (Fin 1),
      example_scored ''g'' 6 [Fin 1, Fin 0] (Fin 1)]"
    by (simp add: scored_all_def example_scored_def cosine_ieee_axes)
  have len: "length [example_chunk ''a'' 0, example_chunk ''b'' 1, example_chunk ''c'' 2,
      example_chunk ''d'' 3, example_chunk ''e'' 4, example_chunk ''f'' 5,
      example_chunk ''g'' 6] \<le>
    length [[Fin 0, Fin 1], [Fin 1, Fin 0], [Fin 0, Fin 1], [Fin 1, Fin 0], [Fin 1, Fin 0],
      [Fin 1, Fin 0], [Fin 1, Fin 0]]"
    by simp
  note top = rank_top_k [OF len, where qEmb = "[Fin 1, Fin 0]", unfolded all rank_seven]
  have nan: "\<forall>t\<in>set [example_scored ''a'' 0 [Fin 0, Fin 1] (Fin 0),
      example_scored ''b'' 1 [Fin 1, Fin 0] (Fin 1),
      example_scored ''c'' 2 [Fin 0, Fin 1] (Fin 0),
      example_scored ''d'' 3 [Fin 1, Fin 0] (Fin 1),
      example_scored ''e'' 4 [Fin 1, Fin 0] (Fin 1),
      example_scored ''f'' 5 [Fin 1, Fin 0] (Fin 1),
      example_scored ''g'' 6 [Fin 1, Fin 0] (Fin 1)]. score t \<noteq> NaN"
    by (simp add: example_scored_def chunk.defs)
  from top obtain rest where
    "mset ([example_scored ''b'' 1 [Fin 1, Fin 0] (Fin 1),
             example_scored ''d'' 3 [Fin 1, Fin 0] (Fin 1),
             example_scored ''e'' 4 [Fin 1, Fin 0] (Fin 1),
             example_scored ''f'' 5 [Fin 1, Fin 0] (Fin 1),
             example_scored ''g'' 6 [Fin 1, Fin 0] (Fin 1),
             example_scored ''a'' 0 [Fin 0, Fin 1] (Fin 0)] @ rest) =
      mset [example_scored ''a'' 0 [Fin 0, Fin 1] (Fin 0),
            example_scored ''b'' 1 [Fin 1, Fin 0] (Fin 1),
            example_scored ''c'' 2 [Fin 0, Fin 1] (Fin 0),
            example_scored ''d'' 3 [Fin 1, Fin 0] (Fin 1),
            example_scored ''e'' 4 [Fin 1, Fin 0] (Fin 1),
            example_scored ''f'' 5 [Fin 1, Fin 0] (Fin 1),
            example_scored ''g'' 6 [Fin 1, Fin 0] (Fin 1)]"
    "sorted_wrt (\<lambda>a b. d_le (score b) (score a))
        ([example_scored ''b'' 1 [Fin 1, Fin 0] (Fin 1),
          example_scored ''d'' 3 [Fin 1, Fin 0] (Fin 1),
          example_scored ''e'' 4 [Fin 1, Fin 0] (Fin 1),
          example_scored ''f'' 5 [Fin 1, Fin 0] (Fin 1),
          example_scored ''g'' 6 [Fin 1, Fin 0] (Fin 1),
          example_scored ''a'' 0 [Fin 0, Fin 1] (Fin 0)] @ rest)"
    "sorted_wrt (\<lambda>a b. d_le (score a) (score b) \<longrightarrow> before a b)
        ([example_scored ''b'' 1 [Fin 1, Fin 0] (Fin 1),
          example_scored ''d'' 3 [Fin 1, Fin 0] (Fin 1),
          example_scored ''e'' 4 [Fin 1, Fin 0] (Fin 1),
          example_scored ''f'' 5 [Fin 1, Fin 0] (Fin 1),
          example_scored ''g'' 6 [Fin 1, Fin 0] (Fin 1),
          example_scored ''a'' 0 [Fin 0, Fin 1] (Fin 0)] @ rest)"
    using nan build_chunks_seven by blast
  then show ?thesis
    using build_chunks_seven rank_seven len by blast
qed

text \<open>
  A similarity can be NaN: for the query \<open>[2\<^sup>5\<^sup>0\<^sup>0]\<close> and the embedding \<open>[2\<^sup>6\<^sup>0\<^sup>0]\<close> the dot
  product and the second magnitude overflow to infinity, and infinity divided by infinity
  is NaN. A difference with NaN is NaN, which the sort takes for a tie, so the array stays
  as it was: the similarities come out as -1, NaN, 1, and 1 is not less than or equal
  to -1.
\<close>

theorem rank_top_k_counterexample:
  "build_chunks (map (\<lambda>s. \<lparr>doc_text = Some s, doc_source = ''policy.pdf''\<rparr>)
      [''a'', ''b'', ''c'']) =
   Some [example_chunk ''a'' 0, example_chunk ''b'' 1, example_chunk ''c'' 2] \<and>
   rank_with ieee [Fin (2 ^ 500)]
     [example_chunk ''a'' 0, example_chunk ''b'' 1, example_chunk ''c'' 2]
     [[Fin (- 1)], [Fin (2 ^ 600)], [Fin 1]] =
   Inr [example_scored ''a'' 0 [Fin (- 1)] (Fin (- 1)),
        example_scored ''b'' 1 [Fin (2 ^ 600)] NaN,
        example_scored ''c'' 2 [Fin 1] (Fin 1)] \<and>
   \<not> d_le (Fin 1) (Fin (- 1))"
proof -
  have "build_chunks (map (\<lambda>s. \<lparr>doc_text = Some s, doc_source = ''policy.pdf''\<rparr>)
      [''a'', ''b'', ''c'']) =
   Some [example_chunk ''a'' 0, example_chunk ''b'' 1, example_chunk ''c'' 2]"
    by (simp add: build_chunks_def doc_chunks_def chunkText_def chunkLoop.simps slice_def
      or_empty_def normalize_def trim_def isSpace_def example_chunk_def)
  moreover have "scored_all ieee [Fin (2 ^ 500)]
     [example_chunk ''a'' 0, example_chunk ''b'' 1, example_chunk ''c'' 2]
     [[Fin (- 1)], [Fin (2 ^ 600)], [Fin 1]] =
     [example_scored ''a'' 0 [Fin (- 1)] (Fin (- 1)),
      example_scored ''b'' 1 [Fin (2 ^ 600)] NaN,
      example_scored ''c'' 2 [Fin 1] (Fin 1)]"
    unfolding scored_all_def cosine_ieee_big
    by (simp add: example_scored_def cosine_ieee_big del: power_numeral)
  then have "rank_with ieee [Fin (2 ^ 500)]
     [example_chunk ''a'' 0, example_chunk ''b'' 1, example_chunk ''c'' 2]
     [[Fin (- 1)], [Fin (2 ^ 600)], [Fin 1]] =
   Inr [example_scored ''a'' 0 [Fin (- 1)] (Fin (- 1)),
        example_scored ''b'' 1 [Fin (2 ^ 600)] NaN,
        example_scored ''c'' 2 [Fin 1] (Fin 1)]"
    unfolding rank_with_ieee
    by (simp add: js_sort_with_def example_scored_def chunk.defs d_sub_def
        del: power_numeral)
  ultimately show ?thesis by simp
qed

section \<open>The decision synthesizer\<close>

lemma includes_str_occurs: "includes_str s k = occurs k s"
proof (induction s)
  case Nil
  then show ?case by (auto simp: occurs_def)
next
  case (Cons c s)
  have "occurs k (c # s) = (take (length k) (c # s) = k \<or> occurs k s)"
  proof
    assume "occurs k (c # s)"
    then obtain p q where pq: "c # s = p @ k @ q" by (auto simp: occurs_def)
    show "take (length k) (c # s) = k \<or> occurs k s"
    proof (cases p)
      case Nil
      then show ?thesis using pq by simp
    next
      case (Cons a p')
      then have "s = p' @ k @ q" using pq by simp
      then show ?thesis by (auto simp: occurs_def)
    qed
  next
    assume "take (length k) (c # s) = k \<or> occurs k s"
    then show "occurs k (c # s)"
    proof
      assume "take (length k) (c # s) = k"
      then have "c # s = [] @ k @ drop (length k) (c # s)"
        by (metis append_Nil append_take_drop_id)
      then show ?thesis unfolding occurs_def by blast
    next
      assume "occurs k s"
      then obtain p q where "s = p @ k @ q" by (auto simp: occurs_def)
      then have "c # s = (c # p) @ k @ q" by simp
      then show ?thesis unfolding occurs_def by blast
    qed
  qed
  then show ?case using Cons by simp
qed

lemma list_ex_occurs:
  "list_ex (\<lambda>k. includes_str joined k) ks = (\<exists>k\<in>set ks. occurs k joined)"
  by (simp add: list_ex_iff includes_str_occurs)

lemma keyword_lists:
  "set rejectKeywords = rejection_signals" "set approveKeywords = approval_signals"
  by (simp_all add: rejectKeywords_def approveKeywords_def rejection_signals_def
      approval_signals_def)

lemma synthesize_fallback:
  assumes "\<not> truthy parsed"
  shows "synthesize topK llmText parsed =
    Inr (JObj
      [(''decision'', JStr (keyword_heuristic (join '' '' (map (\<lambda>t. toLowerCase (c_text t)) topK)))),
       (''amount'', JNull),
       (''justification'', JArr (map from_top topK)),
       (''explain_prompt'',
          JStr (if llmText \<noteq> [] then llmText
                else ''LLM did not return parsable JSON; fallback heuristic used.''))])"
  using assms
  unfolding synthesize_def Let_def list_ex_occurs keyword_lists keyword_heuristic_def
  by simp

lemma parse_llm_none: "no_parsable_json JSON_parse llmText \<Longrightarrow> parse_llm JSON_parse llmText = JNull"
  by (auto simp: no_parsable_json_def parse_llm_def split: option.splits sum.splits)

lemma keyword_heuristic_eval:
  "keyword_heuristic s =
     (if list_ex (includes_str s) [''not covered'', ''exclusion'', ''deductible not'',
            ''pre-existing'', ''waiting period'', ''not eligible'', ''excludes''] \<and>
         \<not> list_ex (includes_str s) [''covered'', ''shall be paid'', ''payable'', ''benefit'',
            ''eligible'', ''entitled'']
      then ''rejected''
      else if list_ex (includes_str s) [''covered'', ''shall be paid'', ''payable'',
            ''benefit'', ''eligible'', ''entitled''] \<and>
         \<not> list_ex (includes_str s) [''not covered'', ''exclusion'', ''deductible not'',
            ''pre-existing'', ''waiting period'', ''not eligible'', ''excludes'']
      then ''approved''
      else ''maybe'')"
  unfolding keyword_heuristic_def list_ex_occurs rejection_signals_def approval_signals_def
  by simp

text \<open>
  Claim C2, as the code has it. When no parsable JSON object is found in the generative
  response, the synthesizer's decision is the keyword heuristic applied to the lowercased
  texts of the top chunks joined by single spaces (not to their bare concatenation):
  rejected when a rejection keyword occurs and no approval keyword does, approved when an
  approval keyword occurs and no rejection keyword does, maybe otherwise; and the amount
  is null. The keyword sets of the handler are those of the specification.
\<close>

theorem synthesize_heuristic:
  assumes "no_parsable_json JSON_parse llmText"
  shows "\<exists>res. synthesize topK llmText (parse_llm JSON_parse llmText) = Inr res \<and>
    field ''decision'' res =
      Some (JStr (keyword_heuristic (join '' '' (map (\<lambda>t. toLowerCase (c_text t)) topK)))) \<and>
    field ''amount'' res = Some JNull"
  using synthesize_fallback [of JNull topK llmText] parse_llm_none [OF assms]
  by simp

lemma synthesize_knee:
  "synthesize
     [\<lparr>c_text = ''Knee surgery is COVERED'', c_source = ''policy.pdf'', doc_index = 0,
       chunk_index = 0, embedding = [1], score = 1\<rparr>,
      \<lparr>c_text = ''after 30 days'', c_source = ''policy.pdf'', doc_index = 0,
       chunk_index = 1, embedding = [1], score = 1\<rparr>]
     ''No answer.'' (parse_llm (\<lambda>s. Inl (SyntaxError ''bad'')) ''No answer.'') =
   Inr (JObj [(''decision'', JStr ''approved''), (''amount'', JNull),
        (''justification'',
           JArr [JObj [(''clause'', JStr ''Knee surgery is COVERED''),
                       (''source'', JStr ''policy.pdf''),
                       (''chunk_index'', JNum 0), (''similarity'', JNum 1)],
                 JObj [(''clause'', JStr ''after 30 days''),
                       (''source'', JStr ''policy.pdf''),
                       (''chunk_index'', JNum 1), (''similarity'', JNum 1)]]),
        (''explain_prompt'', JStr ''No answer.'')])"
  by (simp add: synthesize_def parse_llm_def jsonMatch_def toLowerCase_def lower_char_def
      rejectKeywords_def approveKeywords_def from_top_def slice_def char_of_def bit_Suc_0_iff)

theorem synthesize_heuristic_witness:
  "no_parsable_json (\<lambda>s. Inl (SyntaxError ''bad'')) ''No answer.'' \<and>
   synthesize
     [\<lparr>c_text = ''Knee surgery is COVERED'', c_source = ''policy.pdf'', doc_index = 0,
       chunk_index = 0, embedding = [1], score = 1\<rparr>,
      \<lparr>c_text = ''after 30 days'', c_source = ''policy.pdf'', doc_index = 0,
       chunk_index = 1, embedding = [1], score = 1\<rparr>]
     ''No answer.'' (parse_llm (\<lambda>s. Inl (SyntaxError ''bad'')) ''No answer.'') =
   Inr (JObj [(''decision'', JStr ''approved''), (''amount'', JNull),
        (''justification'',
           JArr [JObj [(''clause'', JStr ''Knee surgery is COVERED''),
                       (''source'', JStr ''policy.pdf''),
                       (''chunk_index'', JNum 0), (''similarity'', JNum 1)],
                 JObj [(''clause'', JStr ''after 30 days''),
                       (''source'', JStr ''policy.pdf''),
                       (''chunk_index'', JNum 1), (''similarity'', JNum 1)]]),
        (''explain_prompt'', JStr ''No answer.'')]) \<and>
   keyword_heuristic ''knee surgery is covered after 30 days'' = ''approved''"
proof -
  have none: "no_parsable_json (\<lambda>s. Inl (SyntaxError ''bad'')) ''No answer.''"
    by (simp add: no_parsable_json_def jsonMatch_def)
  have low: "join '' '' (map (\<lambda>t. toLowerCase (c_text t))
      [\<lparr>c_text = ''Knee surgery is COVERED'', c_source = ''policy.pdf'', doc_index = 0,
        chunk_index = 0, embedding = [1::real], score = 1::real\<rparr>,
       \<lparr>c_text = ''after 30 days'', c_source = ''policy.pdf'', doc_index = 0,
        chunk_index = 1, embedding = [1], score = 1\<rparr>]) =
      ''knee surgery is covered after 30 days''"
    by (simp add: toLowerCase_def lower_char_def char_of_def bit_Suc_0_iff)
  from synthesize_heuristic [OF none,
      of "[\<lparr>c_text = ''Knee surgery is COVERED'', c_source = ''policy.pdf'', doc_index = 0,
        chunk_index = 0, embedding = [1], score = 1\<rparr>,
       \<lparr>c_text = ''after 30 days'', c_source = ''policy.pdf'', doc_index = 0,
        chunk_index = 1, embedding = [1], score = 1\<rparr>]"]
  have "keyword_heuristic ''knee surgery is covered after 30 days'' = ''approved''"
    unfolding low synthesize_knee by simp
  then show ?thesis using none synthesize_knee by simp
qed

text \<open>Two top chunks, \<open>this is not\<close> and \<open>covered here\<close>, and a completion without JSON.
  The handler joins the lowercased texts with a space: \<open>not covered\<close> and \<open>covered\<close> both
  occur and the decision is \<open>maybe\<close>. On the bare concatenation
  \<open>this is notcovered here\<close> only \<open>covered\<close> occurs, and the heuristic answers
  \<open>approved\<close>.\<close>

theorem synthesize_heuristic_counterexample:
  "synthesize
     [\<lparr>c_text = ''this is not'', c_source = ''policy.pdf'', doc_index = 0,
       chunk_index = 0, embedding = [1], score = 1\<rparr>,
      \<lparr>c_text = ''covered here'', c_source = ''policy.pdf'', doc_index = 0,
       chunk_index = 1, embedding = [1], score = 1\<rparr>]
     ''No answer.'' (parse_llm (\<lambda>s. Inl (SyntaxError ''bad'')) ''No answer.'') =
   Inr (JObj [(''decision'', JStr ''maybe''), (''amount'', JNull),
        (''justification'',
           JArr [JObj [(''clause'', JStr ''this is not''),
                       (''source'', JStr ''policy.pdf''),
                       (''chunk_index'', JNum 0), (''similarity'', JNum 1)],
                 JObj [(''clause'', JStr ''covered here''),
                       (''source'', JStr ''policy.pdf''),
                       (''chunk_index'', JNum 1), (''similarity'', JNum 1)]]),
        (''explain_prompt'', JStr ''No answer.'')]) \<and>
   concat (map (\<lambda>t. toLowerCase (c_text t))
     [\<lparr>c_text = ''this is not'', c_source = ''policy.pdf'', doc_index = 0,
       chunk_index = 0, embedding = [1::real], score = 1::real\<rparr>,
      \<lparr>c_text = ''covered here'', c_source = ''policy.pdf'', doc_index = 0,
       chunk_index = 1, embedding = [1], score = 1\<rparr>]) = ''this is notcovered here'' \<and>
   keyword_heuristic ''this is notcovered here'' = ''approved'' \<and>
   keyword_heuristic ''this is not covered here'' = ''maybe''"
  by (simp add: synthesize_def parse_llm_def jsonMatch_def toLowerCase_def lower_char_def
      rejectKeywords_def approveKeywords_def from_top_def slice_def char_of_def bit_Suc_0_iff
      keyword_heuristic_eval)

lemma map_of_set_field:
  "map_of (set_field key v kvs) k = (if k = key then Some v else map_of kvs k)"
  by (induction kvs) auto

lemma or_else_supplied:
  "or_else (field key j) d = (if supplied_truthy key j then the (field key j) else d)"
  by (auto simp: or_else_def supplied_truthy_def split: option.splits)

lemma nullish_else_supplied:
  "nullish_else (field key j) d = (if supplied key j then the (field key j) else d)"
  by (auto simp: nullish_else_def supplied_def split: option.splits json.splits)

lemma repair_entry_fields:
  assumes "repair_entry topK j i = Inr r"
  shows "field ''source'' r =
      Some (if supplied_truthy ''source'' j then the (field ''source'' j)
            else if i < length topK then JStr (c_source (topK ! i)) else JStr [])"
    and "field ''chunk_index'' r =
      Some (if supplied ''chunk_index'' j then the (field ''chunk_index'' j)
            else if i < length topK then JNum (real (chunk_index (topK ! i))) else JNull)"
    and "field ''similarity'' r =
      Some (if supplied ''similarity'' j then the (field ''similarity'' j)
            else if i < length topK then JNum (score (topK ! i)) else JNull)"
proof -
  have r: "r = JObj
           [(''clause'',
               or_else (field ''clause'' j)
                 (or_else (map_option (\<lambda>t. JStr (slice (c_text t) 0 300)) (at_index topK i))
                    (JStr []))),
            (''source'',
               or_else (field ''source'' j)
                 (or_else (map_option (\<lambda>t. JStr (c_source t)) (at_index topK i)) (JStr []))),
            (''chunk_index'',
               nullish_else (field ''chunk_index'' j)
                 (nullish_else (map_option (\<lambda>t. JNum (real (chunk_index t))) (at_index topK i))
                    JNull)),
            (''similarity'',
               nullish_else (field ''similarity'' j)
                 (nullish_else (map_option (\<lambda>t. JNum (score t)) (at_index topK i)) JNull))]"
    using assms by (simp add: repair_entry_def Let_def split: if_splits)
  have src: "or_else (map_option (\<lambda>t. JStr (c_source t)) (at_index topK i)) (JStr []) =
      (if i < length topK then JStr (c_source (topK ! i)) else JStr [])"
    by (simp add: or_else_def at_index_def)
  have ci: "nullish_else (map_option (\<lambda>t. JNum (real (chunk_index t))) (at_index topK i)) JNull =
      (if i < length topK then JNum (real (chunk_index (topK ! i))) else JNull)"
    by (simp add: nullish_else_def at_index_def)
  have sim: "nullish_else (map_option (\<lambda>t. JNum (score t)) (at_index topK i)) JNull =
      (if i < length topK then JNum (score (topK ! i)) else JNull)"
    by (simp add: nullish_else_def at_index_def)
  show "field ''source'' r =
      Some (if supplied_truthy ''source'' j then the (field ''source'' j)
            else if i < length topK then JStr (c_source (topK ! i)) else JStr [])"
    unfolding r src or_else_supplied by simp
  show "field ''chunk_index'' r =
      Some (if supplied ''chunk_index'' j then the (field ''chunk_index'' j)
            else if i < length topK then JNum (real (chunk_index (topK ! i))) else JNull)"
    unfolding r ci nullish_else_supplied by simp
  show "field ''similarity'' r =
      Some (if supplied ''similarity'' j then the (field ''similarity'' j)
            else if i < length topK then JNum (score (topK ! i)) else JNull)"
    unfolding r sim nullish_else_supplied by simp
qed

lemma repair_all_nth:
  assumes "repair_all topK js n = Inr rs"
  shows "length rs = length js \<and>
    (\<forall>i<length js. repair_entry topK (js ! i) (n + i) = Inr (rs ! i))"
  using assms
proof (induction js arbitrary: n rs)
  case Nil
  then show ?case by simp
next
  case (Cons j js)
  from Cons.prems obtain r rs' where r: "repair_entry topK j n = Inr r"
    and rs': "repair_all topK js (Suc n) = Inr rs'" and rs: "rs = r # rs'"
    by (auto split: sum.splits)
  from Cons.IH [OF rs'] have len: "length rs' = length js"
    and nth: "\<forall>i<length js. repair_entry topK (js ! i) (Suc n + i) = Inr (rs' ! i)"
    by simp_all
  have "repair_entry topK ((j # js) ! i) (n + i) = Inr (rs ! i)" if "i < length (j # js)" for i
  proof (cases i)
    case 0
    then show ?thesis using r rs by simp
  next
    case (Suc k)
    then show ?thesis using nth that rs by simp
  qed
  then show ?case using len rs by simp
qed

lemma synthesize_array:
  assumes "synthesize topK llmText (JObj kvs) = Inr res"
    and "map_of kvs ''justification'' = Some (JArr js)"
  shows "\<exists>rs. res = JObj (set_field ''justification'' (JArr rs) kvs) \<and>
    repair_all topK js 0 = Inr rs"
  using assms by (auto simp: synthesize_def split: sum.splits)

lemma synthesize_no_array:
  assumes "synthesize topK llmText parsed = Inr res"
    and "\<not> truthy parsed \<or>
      (\<exists>kvs. parsed = JObj kvs \<and> (\<forall>js. map_of kvs ''justification'' \<noteq> Some (JArr js)))"
  shows "field ''justification'' res = Some (JArr (map from_top topK))"
proof (cases "truthy parsed")
  case False
  then show ?thesis using assms(1) by (auto simp: synthesize_def Let_def)
next
  case True
  with assms(2) obtain kvs where p: "parsed = JObj kvs"
    and na: "\<forall>js. map_of kvs ''justification'' \<noteq> Some (JArr js)" by blast
  have "res = JObj (set_field ''justification'' (JArr (map from_top topK)) kvs)"
    using assms(1) na unfolding p
    by (auto simp: synthesize_def split: option.splits json.splits)
  then show ?thesis by (simp add: map_of_set_field)
qed

text \<open>
  Claim C3, as the code has it. When the parsed justification is an array, the returned
  justification has one entry for each of its entries, in order. Entry \<open>i\<close> keeps each of
  \<open>source\<close>, \<open>chunk_index\<close> and \<open>similarity\<close> that the generative output supplied (nothing
  compares it with the top chunks); a member that is missing is taken from the top chunk
  at position \<open>i\<close> when there is one, and is \<open>""\<close> (source) or \<open>null\<close> (chunk index,
  similarity) at the positions from \<open>K\<close> on. On the heuristic path, and when the parsed
  object's justification is not an array, the justification is built from the top chunks,
  one entry for each.
\<close>

theorem justification_repair:
  assumes "synthesize topK llmText parsed = Inr res"
  shows "(\<forall>kvs js. parsed = JObj kvs \<and> map_of kvs ''justification'' = Some (JArr js) \<longrightarrow>
      (\<exists>rs. field ''justification'' res = Some (JArr rs) \<and> length rs = length js \<and>
         (\<forall>i<length js.
            field ''source'' (rs ! i) =
              Some (if supplied_truthy ''source'' (js ! i) then the (field ''source'' (js ! i))
                    else if i < length topK then JStr (c_source (topK ! i)) else JStr []) \<and>
            field ''chunk_index'' (rs ! i) =
              Some (if supplied ''chunk_index'' (js ! i)
                    then the (field ''chunk_index'' (js ! i))
                    else if i < length topK then JNum (real (chunk_index (topK ! i)))
                    else JNull) \<and>
            field ''similarity'' (rs ! i) =
              Some (if supplied ''similarity'' (js ! i) then the (field ''similarity'' (js ! i))
                    else if i < length topK then JNum (score (topK ! i)) else JNull)))) \<and>
    (\<not> truthy parsed \<or>
       (\<exists>kvs. parsed = JObj kvs \<and> (\<forall>js. map_of kvs ''justification'' \<noteq> Some (JArr js))) \<longrightarrow>
     field ''justification'' res = Some (JArr (map from_top topK)))"
proof (intro conjI allI impI)
  fix kvs js
  assume p: "parsed = JObj kvs \<and> map_of kvs ''justification'' = Some (JArr js)"
  then obtain rs where res: "res = JObj (set_field ''justification'' (JArr rs) kvs)"
    and rep: "repair_all topK js 0 = Inr rs"
    using synthesize_array [of topK llmText kvs res js] assms by blast
  from repair_all_nth [OF rep] have len: "length rs = length js"
    and nth: "\<forall>i<length js. repair_entry topK (js ! i) i = Inr (rs ! i)" by simp_all
  have "field ''justification'' res = Some (JArr rs)"
    by (simp add: res map_of_set_field)
  moreover have "field ''source'' (rs ! i) =
              Some (if supplied_truthy ''source'' (js ! i) then the (field ''source'' (js ! i))
                    else if i < length topK then JStr (c_source (topK ! i)) else JStr []) \<and>
            field ''chunk_index'' (rs ! i) =
              Some (if supplied ''chunk_index'' (js ! i)
                    then the (field ''chunk_index'' (js ! i))
                    else if i < length topK then JNum (real (chunk_index (topK ! i)))
                    else JNull) \<and>
            field ''similarity'' (rs ! i) =
              Some (if supplied ''similarity'' (js ! i) then the (field ''similarity'' (js ! i))
                    else if i < length topK then JNum (score (topK ! i)) else JNull)"
    if "i < length js" for i
    using repair_entry_fields [of topK "js ! i" i "rs ! i"] nth that by blast
  ultimately show "\<exists>rs. field ''justification'' res = Some (JArr rs) \<and> length rs = length js \<and>
         (\<forall>i<length js.
            field ''source'' (rs ! i) =
              Some (if supplied_truthy ''source'' (js ! i) then the (field ''source'' (js ! i))
                    else if i < length topK then JStr (c_source (topK ! i)) else JStr []) \<and>
            field ''chunk_index'' (rs ! i) =
              Some (if supplied ''chunk_index'' (js ! i)
                    then the (field ''chunk_index'' (js ! i))
                    else if i < length topK then JNum (real (chunk_index (topK ! i)))
                    else JNull) \<and>
            field ''similarity'' (rs ! i) =
              Some (if supplied ''similarity'' (js ! i) then the (field ''similarity'' (js ! i))
                    else if i < length topK then JNum (score (topK ! i)) else JNull))"
    using len by blast
next
  assume "\<not> truthy parsed \<or>
       (\<exists>kvs. parsed = JObj kvs \<and> (\<forall>js. map_of kvs ''justification'' \<noteq> Some (JArr js)))"
  then show "field ''justification'' res = Some (JArr (map from_top topK))"
    using synthesize_no_array [OF assms] by blast
qed

lemma synthesize_two_entries:
  \<open>synthesize
     [\<lparr>c_text = ''Knee surgery is covered'', c_source = ''policy.pdf'', doc_index = 0,
       chunk_index = 0, embedding = [1], score = 1\<rparr>]
     ''{"justification":[{"clause":"c1"},{"clause":"c2"}]}''
     (JObj [(''justification'',
        JArr [JObj [(''clause'', JStr ''c1'')], JObj [(''clause'', JStr ''c2'')]])]) =
   Inr (JObj [(''justification'',
        JArr [JObj [(''clause'', JStr ''c1''), (''source'', JStr ''policy.pdf''),
                    (''chunk_index'', JNum 0), (''similarity'', JNum 1)],
              JObj [(''clause'', JStr ''c2''), (''source'', JStr []),
                    (''chunk_index'', JNull), (''similarity'', JNull)]])])\<close>
  by (simp add: synthesize_def repair_entry_def or_else_def nullish_else_def at_index_def)

theorem justification_repair_witness:
  \<open>synthesize
     [\<lparr>c_text = ''Knee surgery is covered'', c_source = ''policy.pdf'', doc_index = 0,
       chunk_index = 0, embedding = [1], score = 1\<rparr>]
     ''{"justification":[{"clause":"c1"},{"clause":"c2"}]}''
     (JObj [(''justification'',
        JArr [JObj [(''clause'', JStr ''c1'')], JObj [(''clause'', JStr ''c2'')]])]) =
   Inr (JObj [(''justification'',
        JArr [JObj [(''clause'', JStr ''c1''), (''source'', JStr ''policy.pdf''),
                    (''chunk_index'', JNum 0), (''similarity'', JNum 1)],
              JObj [(''clause'', JStr ''c2''), (''source'', JStr []),
                    (''chunk_index'', JNull), (''similarity'', JNull)]])]) \<and>
   (\<exists>rs. field ''justification''
      (JObj [(''justification'',
        JArr [JObj [(''clause'', JStr ''c1''), (''source'', JStr ''policy.pdf''),
                    (''chunk_index'', JNum 0), (''similarity'', JNum 1)],
              JObj [(''clause'', JStr ''c2''), (''source'', JStr []),
                    (''chunk_index'', JNull), (''similarity'', JNull)]])]) = Some (JArr rs) \<and>
      length rs = 2 \<and>
      field ''source'' (rs ! 0) = Some (JStr ''policy.pdf'') \<and>
      field ''chunk_index'' (rs ! 0) = Some (JNum 0) \<and>
      field ''similarity'' (rs ! 0) = Some (JNum 1))\<close>
proof -
  note repaired = justification_repair [OF synthesize_two_entries]
  show ?thesis
    using repaired synthesize_two_entries
    by (auto simp: supplied_truthy_def supplied_def)
qed

text \<open>One top chunk and a generative justification of two entries: the second entry of the
  result has the empty string as its source and \<open>null\<close> as chunk index and similarity. It
  references no chunk of the top set.\<close>

theorem justification_repair_counterexample:
  \<open>synthesize
     [\<lparr>c_text = ''Knee surgery is covered'', c_source = ''policy.pdf'', doc_index = 0,
       chunk_index = 0, embedding = [1], score = 1\<rparr>]
     ''{"justification":[{"clause":"c1"},{"clause":"c2"}]}''
     (parse_llm (\<lambda>s. if s = ''{"justification":[{"clause":"c1"},{"clause":"c2"}]}''
          then Inr (JObj [(''justification'',
            JArr [JObj [(''clause'', JStr ''c1'')], JObj [(''clause'', JStr ''c2'')]])])
          else Inl (SyntaxError ''Unexpected token''))
        ''{"justification":[{"clause":"c1"},{"clause":"c2"}]}'') =
   Inr (JObj [(''justification'',
        JArr [JObj [(''clause'', JStr ''c1''), (''source'', JStr ''policy.pdf''),
                    (''chunk_index'', JNum 0), (''similarity'', JNum 1)],
              JObj [(''clause'', JStr ''c2''), (''source'', JStr []),
                    (''chunk_index'', JNull), (''similarity'', JNull)]])])\<close>
  by (simp add: synthesize_def repair_entry_def or_else_def nullish_else_def at_index_def
      parse_llm_def jsonMatch_def)

section \<open>The decision of a request\<close>

lemma keyword_heuristic_values:
  "keyword_heuristic joined \<in> {''approved'', ''rejected'', ''maybe''}"
  by (simp add: keyword_heuristic_def)

lemma synthesize_decision:
  assumes "synthesize topK llmText parsed = Inr res"
  shows "if truthy parsed then field ''decision'' res = field ''decision'' parsed
    else field ''decision'' res \<in>
      {Some (JStr ''approved''), Some (JStr ''rejected''), Some (JStr ''maybe'')}"
proof (cases "truthy parsed")
  case False
  then show ?thesis
    using assms keyword_heuristic_values [of "join '' '' (map (\<lambda>t. toLowerCase (c_text t)) topK)"]
    by (auto simp: synthesize_fallback)
next
  case True
  have "field ''decision'' res = field ''decision'' parsed"
  proof (cases parsed)
    case (JObj kvs)
    then obtain v where "res = JObj (set_field ''justification'' v kvs)"
      using assms by (auto simp: synthesize_def split: option.splits json.splits sum.splits)
    then show ?thesis using JObj by (simp add: map_of_set_field)
  qed (use assms True in \<open>auto simp: synthesize_def\<close>)
  then show ?thesis using True by simp
qed

lemma run_ok:
  assumes "run extract create chat JSON_parse req = Some out"
    and "response out = Status200 b"
  shows "\<exists>topK llmText. chat (or_empty (query req)) topK = Inr llmText \<and>
    synthesize topK llmText (parse_llm JSON_parse llmText) = Inr (results b) \<and>
    top_k b = length topK"
  using assms
  apply (auto simp: run_def Let_def
      split: documents.splits if_splits option.splits prod.splits sum.splits list.splits)
  by blast+

text \<open>
  Claim C8, as the code has it. For every request answered with a result: when the
  \<open>try\<close> block left nothing usable in \<open>parsed\<close>, the decision is one of \<open>approved\<close>,
  \<open>rejected\<close> and \<open>maybe\<close> (the heuristic never answers \<open>manual_review\<close>); when the
  generative output was parsed, the decision member of the result is the decision member
  of the parsed value, passed through as it is, whatever it holds.
\<close>

theorem run_decision:
  assumes "run extract create chat JSON_parse req = Some out"
    and "response out = Status200 b"
  shows "\<exists>topK llmText. chat (or_empty (query req)) topK = Inr llmText \<and>
    (if truthy (parse_llm JSON_parse llmText)
     then field ''decision'' (results b) = field ''decision'' (parse_llm JSON_parse llmText)
     else field ''decision'' (results b) \<in>
       {Some (JStr ''approved''), Some (JStr ''rejected''), Some (JStr ''maybe'')})"
proof -
  from run_ok [OF assms] obtain topK llmText
    where "chat (or_empty (query req)) topK = Inr llmText"
      and "synthesize topK llmText (parse_llm JSON_parse llmText) = Inr (results b)"
    by blast
  then show ?thesis using synthesize_decision by blast
qed

lemma embedTexts_one:
  "embedTexts create [t] =
     (case create [t] of Inl e \<Rightarrow> (Inl e, [[t]]) | Inr data \<Rightarrow> (Inr data, [[t]]))"
  by (simp add: embedTexts_def slice_def split: sum.splits)

lemma cosine_one: "cosine [1] [1] = 1"
  by (simp add: cosine_def reduce_def at_index_def nullish_or_def)

lemma build_chunks_policy:
  "build_chunks [\<lparr>doc_text = Some ''Knee surgery is covered'', doc_source = ''policy.pdf''\<rparr>] =
   Some [\<lparr>c_text = ''Knee surgery is covered'', c_source = ''policy.pdf'', doc_index = 0,
          chunk_index = 0\<rparr>]"
  by (simp add: build_chunks_def doc_chunks_def chunkText_def chunkLoop.simps slice_def
      or_empty_def normalize_def trim_def isSpace_def)

lemma rank_policy:
  "rank [1] [\<lparr>c_text = ''Knee surgery is covered'', c_source = ''policy.pdf'', doc_index = 0,
          chunk_index = 0\<rparr>] [[1]] =
   Inr [\<lparr>c_text = ''Knee surgery is covered'', c_source = ''policy.pdf'', doc_index = 0,
          chunk_index = 0, embedding = [1], score = 1\<rparr>]"
  by (simp add: rank_def js_sort_def slice_def chunk.defs cosine_one)

lemma run_no_answer:
  "run (\<lambda>u :: unit. \<lparr>doc_text = Some ''Knee surgery is covered'', doc_source = ''policy.pdf''\<rparr>)
     (\<lambda>ts. Inr (map (\<lambda>t. [1]) ts)) (\<lambda>q t. Inr ''No answer.'')
     (\<lambda>s. Inl (SyntaxError ''Unexpected token''))
     \<lparr>documents = OneDocument (), query = Some ''46M, knee surgery''\<rparr> =
   Some \<lparr>response = Status200
           \<lparr>chunks_indexed = 1, top_k = 1,
            results = JObj [(''decision'', JStr ''approved''), (''amount'', JNull),
              (''justification'',
                 JArr [JObj [(''clause'', JStr ''Knee surgery is covered''),
                             (''source'', JStr ''policy.pdf''),
                             (''chunk_index'', JNum 0), (''similarity'', JNum 1)]]),
              (''explain_prompt'', JStr ''No answer.'')]\<rparr>,
         embed_calls = [[''Knee surgery is covered''], [''46M, knee surgery'']]\<rparr>"
  by (simp add: run_def build_chunks_policy embedTexts_one rank_policy or_empty_def
      synthesize_def parse_llm_def jsonMatch_def toLowerCase_def lower_char_def
      rejectKeywords_def approveKeywords_def from_top_def slice_def char_of_def bit_Suc_0_iff)

theorem run_decision_witness:
  "run (\<lambda>u :: unit. \<lparr>doc_text = Some ''Knee surgery is covered'', doc_source = ''policy.pdf''\<rparr>)
     (\<lambda>ts. Inr (map (\<lambda>t. [1]) ts)) (\<lambda>q t. Inr ''No answer.'')
     (\<lambda>s. Inl (SyntaxError ''Unexpected token''))
     \<lparr>documents = OneDocument (), query = Some ''46M, knee surgery''\<rparr> =
   Some \<lparr>response = Status200
           \<lparr>chunks_indexed = 1, top_k = 1,
            results = JObj [(''decision'', JStr ''approved''), (''amount'', JNull),
              (''justification'',
                 JArr [JObj [(''clause'', JStr ''Knee surgery is covered''),
                             (''source'', JStr ''policy.pdf''),
                             (''chunk_index'', JNum 0), (''similarity'', JNum 1)]]),
              (''explain_prompt'', JStr ''No answer.'')]\<rparr>,
         embed_calls = [[''Knee surgery is covered''], [''46M, knee surgery'']]\<rparr> \<and>
   \<not> truthy (parse_llm (\<lambda>s. Inl (SyntaxError ''Unexpected token'')) ''No answer.'') \<and>
   field ''decision''
     (JObj [(''decision'', JStr ''approved''), (''amount'', JNull),
        (''justification'',
           JArr [JObj [(''clause'', JStr ''Knee surgery is covered''),
                       (''source'', JStr ''policy.pdf''),
                       (''chunk_index'', JNum 0), (''similarity'', JNum 1)]]),
        (''explain_prompt'', JStr ''No answer.'')]) \<in>
     {Some (JStr ''approved''), Some (JStr ''rejected''), Some (JStr ''maybe'')}"
proof -
  note decided = run_decision [OF run_no_answer, simplified]
  have "\<not> truthy (parse_llm (\<lambda>s. Inl (SyntaxError ''Unexpected token'')) ''No answer.'')"
    by (simp add: parse_llm_def jsonMatch_def)
  with decided show ?thesis using run_no_answer by simp
qed

text \<open>A completion whose JSON object carries the decision \<open>banana\<close> is answered with status
  200 and that decision, which is none of the four values.\<close>

theorem run_decision_counterexample:
  \<open>run (\<lambda>u :: unit. \<lparr>doc_text = Some ''Knee surgery is covered'', doc_source = ''policy.pdf''\<rparr>)
     (\<lambda>ts. Inr (map (\<lambda>t. [1]) ts)) (\<lambda>q t. Inr ''{"decision":"banana"}'')
     (\<lambda>s. if s = ''{"decision":"banana"}'' then Inr (JObj [(''decision'', JStr ''banana'')])
          else Inl (SyntaxError ''Unexpected token''))
     \<lparr>documents = OneDocument (), query = Some ''46M, knee surgery''\<rparr> =
   Some \<lparr>response = Status200
           \<lparr>chunks_indexed = 1, top_k = 1,
            results = JObj [(''decision'', JStr ''banana''),
              (''justification'',
                 JArr [JObj [(''clause'', JStr ''Knee surgery is covered''),
                             (''source'', JStr ''policy.pdf''),
                             (''chunk_index'', JNum 0), (''similarity'', JNum 1)]])]\<rparr>,
         embed_calls = [[''Knee surgery is covered''], [''46M, knee surgery'']]\<rparr> \<and>
   JStr ''banana'' \<notin> {JStr ''approved'', JStr ''rejected'', JStr ''maybe'', JStr ''manual_review''}\<close>
  by (simp add: run_def build_chunks_policy embedTexts_one rank_policy or_empty_def
      synthesize_def parse_llm_def jsonMatch_def from_top_def slice_def)

section \<open>Documents without text\<close>

text \<open>Every document contributes at least one chunk, whatever its text: the chunked text
  ends in the appended line feed, so it is never empty. The list of chunks is empty only
  for an empty list of documents.\<close>

lemma doc_chunks_nonempty:
  assumes "doc_chunks d di = Some cs"
  shows "cs \<noteq> []"
proof -
  let ?t = "or_empty (doc_text d) @ [CHR 0x0A]"
  have "chunkText ?t 900 150 = Some (chunksFrom ?t 900 (900 - 150) 0)"
    by (rule chunkText_Some) simp
  moreover have "0 < length (chunksFrom ?t 900 (900 - 150) 0)"
    using length_chunksFrom [of "900 - 150" 0 ?t 900 0] by simp
  ultimately show ?thesis using assms by (auto simp: doc_chunks_def)
qed

lemma build_from_nonempty:
  "build_from ds di acc = Some chunks \<Longrightarrow> acc \<noteq> [] \<or> ds \<noteq> [] \<Longrightarrow> chunks \<noteq> []"
proof (induction ds arbitrary: di acc)
  case Nil
  then show ?case by simp
next
  case (Cons d ds)
  from Cons.prems(1) obtain cs where cs: "doc_chunks d di = Some cs"
    and rest: "build_from ds (Suc di) (acc @ cs) = Some chunks"
    by (auto split: option.splits)
  have "acc @ cs \<noteq> []" using doc_chunks_nonempty [OF cs] by simp
  then show ?case using Cons.IH [OF rest] by blast
qed

lemma build_chunks_nonempty:
  "build_chunks docs = Some chunks \<Longrightarrow> docs \<noteq> [] \<Longrightarrow> chunks \<noteq> []"
  using build_from_nonempty [of docs 0 "[]" chunks] by (simp add: build_chunks_def)

lemma build_chunks_empty_doc:
  "build_chunks [\<lparr>doc_text = Some [], doc_source = ''empty.txt''\<rparr>] =
   Some [\<lparr>c_text = [], c_source = ''empty.txt'', doc_index = 0, chunk_index = 0\<rparr>]"
  by (simp add: build_chunks_def doc_chunks_def chunkText_def chunkLoop.simps slice_def
      or_empty_def normalize_def trim_def isSpace_def)

text \<open>
  Claim C1 at a failing input. The handler appends a line feed to the text of every
  document before chunking, so a document with no extractable text still yields one chunk,
  whose normalised text is empty. For a request with one such document the check
  \<open>chunks.length === 0\<close> does not fire: whatever the providers answer, the response is not
  the no-content rejection, and the embedding provider has been called, first with the
  batch that holds the empty string.
\<close>

theorem run_empty_document:
  "\<exists>out. run (\<lambda>u :: unit. \<lparr>doc_text = Some [], doc_source = ''empty.txt''\<rparr>) create chat JSON_parse
       \<lparr>documents = DocumentArray [()], query = Some ''q''\<rparr> = Some out \<and>
     response out \<noteq> Status400 ''No extractable text found in documents.'' \<and>
     embed_calls out \<noteq> [] \<and> hd (embed_calls out) = [[]]"
  by (auto simp: run_def Let_def build_chunks_empty_doc embedTexts_one or_empty_def
      split: sum.splits list.splits)

section \<open>The simplified handlers have no fallback\<close>

text \<open>
  Claim C10. In both simplified handlers a completion whose content the parser rejects is
  answered with an error object holding the parser's message (status 500 in
  \<open>webhook.js\<close>, the default status in the \<open>POST\<close> route): the exception reaches the
  \<open>catch\<close> branch, and there is no heuristic fallback.
\<close>

theorem simplified_handlers_no_fallback:
  assumes "chat q = Inr content" and "JSON_parse content = Inl e"
  shows "handler chat JSON_parse ''POST'' q = \<lparr>status = 500, body = error_body (message e)\<rparr> \<and>
    POST chat JSON_parse q = \<lparr>status = 200, body = error_body (message e)\<rparr>"
  using assms by (simp add: handler_def POST_def)

theorem simplified_handlers_no_fallback_witness:
  "handler (\<lambda>q. Inr ''The claim is approved.'') (\<lambda>s. Inl (SyntaxError ''Unexpected token T''))
     ''POST'' (Some ''knee surgery'') =
     \<lparr>status = 500, body = JObj [(''error'', JStr ''Unexpected token T'')]\<rparr> \<and>
   POST (\<lambda>q. Inr ''The claim is approved.'') (\<lambda>s. Inl (SyntaxError ''Unexpected token T''))
     (Some ''knee surgery'') =
     \<lparr>status = 200, body = JObj [(''error'', JStr ''Unexpected token T'')]\<rparr>"
  using simplified_handlers_no_fallback
    [of "\<lambda>q. Inr ''The claim is approved.''" "Some ''knee surgery''" "''The claim is approved.''"
      "\<lambda>s. Inl (SyntaxError ''Unexpected token T'')" "SyntaxError ''Unexpected token T''"]
  by (simp add: error_body_def)

end
